theory Spec2Isabelle
  imports Complex_Main "HOL-Library.Multiset"
begin

section \<open>JavaScript strings and numbers\<close>

text \<open>
  A JavaScript string is modelled as a \<^typ>\<open>string\<close> whose characters are the code
  units U+0000 .. U+00FF (Latin-1); strings with code units beyond that range are outside
  the model.  A JavaScript number is modelled as a \<^typ>\<open>real\<close>: the spec calls cost a
  decimal currency; NaN and infinities are outside the model.  Comparisons are exact, as
  they are on doubles.  Sums are exact where only their order relation to another sum of
  nonnegative numbers matters; where two sums are compared for equality the addition is a
  parameter, since the addition of doubles rounds.
\<close>

definition toLowerCaseChar :: "char \<Rightarrow> char" where
  "toLowerCaseChar c =
     (let n = (of_char c :: nat)
      in if (65 \<le> n \<and> n \<le> 90) \<or> (192 \<le> n \<and> n \<le> 222 \<and> n \<noteq> 215)
         then char_of (n + 32) else c)"

definition toLowerCase :: "string \<Rightarrow> string" where
  "toLowerCase s = map toLowerCaseChar s"

text \<open>\<open>s.split(sep)\<close> for a one-character separator: the pieces between the
  separators, empty pieces kept; the empty string gives one empty piece.\<close>

fun js_split :: "char \<Rightarrow> string \<Rightarrow> string list" where
  "js_split sep [] = [[]]"
| "js_split sep (c # cs) =
     (if c = sep then [] # js_split sep cs
      else (case js_split sep cs of
              [] \<Rightarrow> [[c]]
            | p # ps \<Rightarrow> (c # p) # ps))"

text \<open>\<open>s.startsWith(t)\<close> and \<open>s.includes(t)\<close>.\<close>

fun startsWith :: "string \<Rightarrow> string \<Rightarrow> bool" where
  "startsWith s [] = True"
| "startsWith [] (c # cs) = False"
| "startsWith (x # xs) (c # cs) = (x = c \<and> startsWith xs cs)"

fun js_includes :: "string \<Rightarrow> string \<Rightarrow> bool" where
  "js_includes [] t = (t = [])"
| "js_includes (x # xs) t = (startsWith (x # xs) t \<or> js_includes xs t)"

section \<open>Data model (src/types/index.ts)\<close>

datatype MatchType = EXACT | PHRASE | BROAD

datatype NegativeKeywordLevel = CAMPAIGN | AD_GROUP | SHARED_LIST

record SearchTermData =
  searchTerm :: string
  campaignName :: string
  adGroupName :: string
  keywordText :: string
  cost :: real
  clicks :: real
  impressions :: real
  conversions :: real
  costPerConversion :: real
  ctr :: real
  cpc :: real

record NegativeKeywordOpportunity =
  opp_searchTerm :: string
  opp_cost :: real
  opp_clicks :: real
  opp_conversions :: real
  potentialSavings :: real
  recommendedMatchType :: MatchType
  recommendedLevel :: NegativeKeywordLevel
  opp_campaignName :: string
  opp_adGroupName :: string

section \<open>Calculations (src/utils/calculations.ts)\<close>

text \<open>\<open>data.filter(p).reduce((total, item) => total + item.cost, 0)\<close>: a left fold.\<close>

definition calculateWastedSpend :: "SearchTermData list \<Rightarrow> real" where
  "calculateWastedSpend data =
     foldl (\<lambda>total item. total + cost item) 0
       (filter (\<lambda>item. conversions item = 0) data)"

definition calculatePotentialSavings :: "SearchTermData list \<Rightarrow> real" where
  "calculatePotentialSavings data =
     foldl (\<lambda>total item. total + cost item) 0
       (filter (\<lambda>item. conversions item = 0 \<and> cost item > 5) data)"

definition brandTerms :: "string list" where
  "brandTerms = [''brand'', ''official'', ''store'', ''shop'', ''buy'', ''purchase'']"

definition productTerms :: "string list" where
  "productTerms = [''price'', ''cost'', ''cheap'', ''free'', ''discount'', ''sale'']"

definition containsBrandTerms :: "string \<Rightarrow> bool" where
  "containsBrandTerms term = list_ex (\<lambda>brand. js_includes term brand) brandTerms"

definition containsProductTerms :: "string \<Rightarrow> bool" where
  "containsProductTerms term = list_ex (\<lambda>product. js_includes term product) productTerms"

definition recommendMatchType :: "string \<Rightarrow> MatchType" where
  "recommendMatchType st =
     (let term = toLowerCase st
      in if length (js_split CHR '' '' term) = 1 \<or> length term \<le> 3 then EXACT
         else if containsBrandTerms term \<or> containsProductTerms term then PHRASE
         else BROAD)"

definition isAdGroupSpecific :: "string \<Rightarrow> string \<Rightarrow> bool" where
  "isAdGroupSpecific st agn =
     (let adGroupWords = js_split CHR '' '' (toLowerCase agn);
          searchWords = js_split CHR '' '' (toLowerCase st);
          matchingWords = filter (\<lambda>word.
             list_ex (\<lambda>adGroupWord. js_includes adGroupWord word \<or> js_includes word adGroupWord)
               adGroupWords) searchWords
      in real (length matchingWords) / real (length searchWords) > 0.5)"

definition isCampaignSpecific :: "string \<Rightarrow> string \<Rightarrow> bool" where
  "isCampaignSpecific st cn =
     (let campaignWords = js_split CHR '' '' (toLowerCase cn);
          searchWords = js_split CHR '' '' (toLowerCase st);
          matchingWords = filter (\<lambda>word.
             list_ex (\<lambda>campaignWord. js_includes campaignWord word \<or> js_includes word campaignWord)
               campaignWords) searchWords
      in length matchingWords > 0)"

definition recommendLevel :: "SearchTermData \<Rightarrow> NegativeKeywordLevel" where
  "recommendLevel item =
     (if isAdGroupSpecific (searchTerm item) (adGroupName item) then AD_GROUP
      else if isCampaignSpecific (searchTerm item) (campaignName item) then CAMPAIGN
      else SHARED_LIST)"

text \<open>The object literal built by the \<open>map\<close> callback of \<open>identifyOpportunities\<close>.\<close>

definition toOpportunity :: "SearchTermData \<Rightarrow> NegativeKeywordOpportunity" where
  "toOpportunity item =
     \<lparr> opp_searchTerm = searchTerm item,
       opp_cost = cost item,
       opp_clicks = clicks item,
       opp_conversions = conversions item,
       potentialSavings = cost item,
       recommendedMatchType = recommendMatchType (searchTerm item),
       recommendedLevel = recommendLevel item,
       opp_campaignName = campaignName item,
       opp_adGroupName = adGroupName item \<rparr>"

text \<open>\<open>Array.prototype.sort\<close> with the comparator \<open>(a, b) => b.potentialSavings -
  a.potentialSavings\<close> is a stable sort by descending \<open>potentialSavings\<close>: a stable
  insertion sort on the negated key.\<close>

definition sortBySavingsDesc ::
  "NegativeKeywordOpportunity list \<Rightarrow> NegativeKeywordOpportunity list" where
  "sortBySavingsDesc opps = sort_key (\<lambda>opp. - potentialSavings opp) opps"

definition identifyOpportunities :: "SearchTermData list \<Rightarrow> NegativeKeywordOpportunity list" where
  "identifyOpportunities data =
     sortBySavingsDesc
       (map toOpportunity
          (filter (\<lambda>item. conversions item = 0 \<and> cost item > 5 \<and> clicks item > 0) data))"



section \<open>More JavaScript helpers\<close>

text \<open>White space as \<open>String.prototype.trim\<close> and the regular expression class \<open>\s\<close>
  see it, within Latin-1: TAB, LF, VT, FF, CR, SPACE and NBSP.\<close>

definition isWhiteSpace :: "char \<Rightarrow> bool" where
  "isWhiteSpace c = (of_char c \<in> {9, 10, 11, 12, 13, 32, 160 :: nat})"

definition js_trim :: "string \<Rightarrow> string" where
  "js_trim s = rev (dropWhile isWhiteSpace (rev (dropWhile isWhiteSpace s)))"

text \<open>\<open>xs.join(sep)\<close>.\<close>

fun js_join :: "string \<Rightarrow> string list \<Rightarrow> string" where
  "js_join sep [] = []"
| "js_join sep [x] = x"
| "js_join sep (x # y # ys) = x @ sep @ js_join sep (y # ys)"

text \<open>A non-negative integer inside a template literal: its decimal digits.\<close>

definition digitChar :: "nat \<Rightarrow> char" where
  "digitChar d = ''0123456789'' ! d"

function nat_to_string :: "nat \<Rightarrow> string" where
  "nat_to_string n =
     (if n < 10 then [digitChar n]
      else nat_to_string (n div 10) @ [digitChar (n mod 10)])"
  by pat_completeness auto
termination
  by (relation "measure (\<lambda>n. n)") auto

declare nat_to_string.simps [simp del]

text \<open>An optional property of a JSON object: \<open>None\<close> is \<open>undefined\<close>.  \<open>truthy\<close>
  is the test \<open>if (x)\<close> on such a value, \<open>orEmpty\<close> is \<open>x || ''\<close>.\<close>

fun truthy :: "string option \<Rightarrow> bool" where
  "truthy None = False"
| "truthy (Some s) = (s \<noteq> [])"

fun orEmpty :: "string option \<Rightarrow> string" where
  "orEmpty None = []"
| "orEmpty (Some s) = s"

section \<open>The request ledger: the NegativeKeywords sheet\<close>

text \<open>
  One row of the 14-column sheet; every cell is a string.  A sheet is the list of its
  rows 1 .. \<open>getLastRow()\<close>, the header row first, so \<open>getLastRow()\<close> is the length of the
  list and \<open>getRange(2, 1, lastRow - 1, _).getValues()\<close> is its tail.  Reads and writes of
  the spreadsheet service are taken to succeed.
\<close>

record nk_row =
  r_id :: string
  r_keywordText :: string
  r_matchType :: string
  r_level :: string
  r_campaignId :: string
  r_campaignName :: string
  r_adGroupId :: string
  r_adGroupName :: string
  r_sharedListId :: string
  r_sharedListName :: string
  r_addedDate :: string
  r_status :: string
  r_message :: string
  r_processedDate :: string

type_synonym sheet = "nk_row list"

record trigger_row =
  t_action :: string
  t_timestamp :: string
  t_status :: string
  t_message :: string
  t_processedDate :: string

record spreadsheet =
  negativeKeywordsSheet :: "sheet option"
  processingTriggersSheet :: "trigger_row list option"

definition blankRow :: nk_row where
  "blankRow = \<lparr> r_id = [], r_keywordText = [], r_matchType = [], r_level = [],
     r_campaignId = [], r_campaignName = [], r_adGroupId = [], r_adGroupName = [],
     r_sharedListId = [], r_sharedListName = [], r_addedDate = [], r_status = [],
     r_message = [], r_processedDate = [] \<rparr>"

text \<open>\<open>sheet.getRange(start, 1, n, 14).setValues(newRows)\<close>: rows \<open>start ..
  start + n - 1\<close> are overwritten, the sheet growing (with blank rows in between) when
  the range lies beyond its last row.\<close>

definition setValues :: "nat \<Rightarrow> nk_row list \<Rightarrow> sheet \<Rightarrow> sheet" where
  "setValues start newRows sh =
     take (start - 1) (sh @ replicate (start - 1 - length sh) blankRow)
       @ newRows @ drop (start - 1 + length newRows) sh"

section \<open>Submission path (Apps Script web app, src/unnamed/part_001)\<close>

text \<open>One element of the \<open>keywords\<close> array of the POST body.\<close>

record keyword =
  kw_text :: "string option"
  kw_matchType :: "string option"
  kw_level :: "string option"
  kw_campaignId :: "string option"
  kw_campaignName :: "string option"
  kw_adGroupId :: "string option"
  kw_adGroupName :: "string option"
  kw_sharedListId :: "string option"
  kw_sharedListName :: "string option"

definition validateKeyword :: "keyword \<Rightarrow> string list" where
  "validateKeyword keyword =
     (if \<not> truthy (kw_text keyword) \<or> length (js_trim (orEmpty (kw_text keyword))) = 0
      then [''Keyword text is required''] else [])
   @ (if truthy (kw_text keyword) \<and> length (orEmpty (kw_text keyword)) > 80
      then [''Keyword text must be 80 characters or less''] else [])
   @ (if kw_matchType keyword \<notin> set [Some ''EXACT'', Some ''PHRASE'', Some ''BROAD'']
      then [''Invalid match type. Must be EXACT, PHRASE, or BROAD''] else [])
   @ (if kw_level keyword \<notin> set [Some ''CAMPAIGN'', Some ''AD_GROUP'', Some ''SHARED_LIST'']
      then [''Invalid level. Must be CAMPAIGN, AD_GROUP, or SHARED_LIST''] else [])
   @ (if kw_level keyword = Some ''CAMPAIGN'' \<and> \<not> truthy (kw_campaignId keyword)
      then [''Campaign ID is required for campaign level keywords''] else [])
   @ (if kw_level keyword = Some ''AD_GROUP''
          \<and> (\<not> truthy (kw_campaignId keyword) \<or> \<not> truthy (kw_adGroupId keyword))
      then [''Campaign ID and Ad Group ID are required for ad group level keywords''] else [])
   @ (if kw_level keyword = Some ''SHARED_LIST'' \<and> \<not> truthy (kw_sharedListId keyword)
      then [''Shared List ID is required for shared list keywords''] else [])"

text \<open>\<open>NEGATIVE_KEYWORD_CONFIG.VALIDATION.ALLOWED_CHARACTERS\<close> of src/utils/constants.ts,
  \<open>/^[a-zA-Z0-9\s\-_.,!?]+$/\<close>, also tested by \<open>validateForm\<close> of the modal.\<close>

definition allowedChar :: "char \<Rightarrow> bool" where
  "allowedChar c =
     (let n = (of_char c :: nat)
      in (97 \<le> n \<and> n \<le> 122) \<or> (65 \<le> n \<and> n \<le> 90) \<or> (48 \<le> n \<and> n \<le> 57)
         \<or> isWhiteSpace c \<or> c \<in> set ''-_.,!?'')"

definition matchesAllowedCharacters :: "string \<Rightarrow> bool" where
  "matchesAllowedCharacters s = (s \<noteq> [] \<and> list_all allowedChar s)"

text \<open>What one iteration of the \<open>forEach\<close> of \<open>addNegativeKeywords\<close> reads from its
  environment: \<open>Date.now()\<close>, \<open>Math.random().toString(36)\<close> and
  \<open>new Date().toISOString()\<close>.  The environment of a call gives the readings of the
  iteration with a given index; the index after the last one gives the time stamp taken
  after the loop.\<close>

record draw =
  d_now :: nat
  d_random :: string
  d_iso :: string

type_synonym env = "nat \<Rightarrow> draw"

text \<open>\<open>`new_${Date.now()}_${Math.random().toString(36).substr(2, 9)}`\<close>\<close>

definition newId :: "draw \<Rightarrow> string" where
  "newId d = ''new_'' @ nat_to_string (d_now d) @ ''_'' @ take 9 (drop 2 (d_random d))"

text \<open>The row built for a request.  A request that passed validation has its text,
  match type and level; where one of them is absent the cell is taken to be empty.\<close>

definition newRow :: "draw \<Rightarrow> keyword \<Rightarrow> nk_row" where
  "newRow d keyword =
     \<lparr> r_id = newId d,
       r_keywordText = orEmpty (kw_text keyword),
       r_matchType = orEmpty (kw_matchType keyword),
       r_level = orEmpty (kw_level keyword),
       r_campaignId = orEmpty (kw_campaignId keyword),
       r_campaignName = orEmpty (kw_campaignName keyword),
       r_adGroupId = orEmpty (kw_adGroupId keyword),
       r_adGroupName = orEmpty (kw_adGroupName keyword),
       r_sharedListId = orEmpty (kw_sharedListId keyword),
       r_sharedListName = orEmpty (kw_sharedListName keyword),
       r_addedDate = d_iso d,
       r_status = ''PENDING'',
       r_message = ''Waiting for processing'',
       r_processedDate = [] \<rparr>"

record add_result =
  added :: nat
  failed :: nat
  errors :: "string list"

record add_state =
  as_result :: add_result
  as_newRows :: "nk_row list"

text \<open>The body of the \<open>forEach\<close>: nothing in the \<open>try\<close> block can throw on a keyword
  object, so the \<open>catch\<close> branch (\<open>failed++\<close>) is never taken.\<close>

fun addLoop :: "env \<Rightarrow> nat \<Rightarrow> keyword list \<Rightarrow> add_state \<Rightarrow> add_state" where
  "addLoop e index [] st = st"
| "addLoop e index (keyword # keywords) st =
     addLoop e (Suc index) keywords
       (st \<lparr> as_newRows := as_newRows st @ [newRow (e index) keyword],
             as_result := (as_result st) \<lparr> added := added (as_result st) + 1 \<rparr> \<rparr>)"

definition addNegativeKeywords :: "env \<Rightarrow> sheet \<Rightarrow> keyword list \<Rightarrow> add_result \<times> sheet" where
  "addNegativeKeywords e sh keywords =
     (let lastRow = length sh;
          st = addLoop e 0 keywords
                 \<lparr> as_result = \<lparr> added = 0, failed = 0, errors = [] \<rparr>, as_newRows = [] \<rparr>;
          newRows = as_newRows st
      in (as_result st,
          if length newRows > 0 then setValues (lastRow + 1) newRows sh else sh))"







section \<open>Provisioning worker (scripts/google-ads-script-negative.js)\<close>

record pending_kw =
  rowIndex :: nat
  p_id :: string
  p_keywordText :: string
  p_matchType :: string
  p_level :: string
  p_campaignId :: string
  p_campaignName :: string
  p_adGroupId :: string
  p_adGroupName :: string
  p_sharedListId :: string
  p_sharedListName :: string
  p_addedDate :: string

definition toPending :: "nat \<Rightarrow> nk_row \<Rightarrow> pending_kw" where
  "toPending n row =
     \<lparr> rowIndex = n, p_id = r_id row, p_keywordText = r_keywordText row,
       p_matchType = r_matchType row, p_level = r_level row,
       p_campaignId = r_campaignId row, p_campaignName = r_campaignName row,
       p_adGroupId = r_adGroupId row, p_adGroupName = r_adGroupName row,
       p_sharedListId = r_sharedListId row, p_sharedListName = r_sharedListName row,
       p_addedDate = r_addedDate row \<rparr>"

text \<open>The \<open>forEach\<close> of \<open>getPendingKeywords\<close> over the data rows, \<open>index\<close> counting from
  0 and \<open>pendingKeywords\<close> growing by \<open>push\<close>.\<close>

fun pendingLoop :: "nat \<Rightarrow> nk_row list \<Rightarrow> pending_kw list \<Rightarrow> pending_kw list" where
  "pendingLoop index [] pendingKeywords = pendingKeywords"
| "pendingLoop index (row # data) pendingKeywords =
     pendingLoop (Suc index) data
       (if (r_status row = [] \<or> r_status row = ''PENDING'')
            \<and> r_id row \<noteq> [] \<and> startsWith (r_id row) ''new_''
        then pendingKeywords @ [toPending (index + 2) row]
        else pendingKeywords)"

definition getPendingKeywords :: "sheet \<Rightarrow> pending_kw list" where
  "getPendingKeywords sh =
     (let lastRow = length sh
      in if lastRow \<le> 1 then [] else pendingLoop 0 (tl sh) [])"

text \<open>
  A thrown value.  The handlers of the worker do one thing with the value they catch:
  they call \<open>toString()\<close> on it.  On an \<open>Error\<close> object, a string or a number the call
  returns a text; on \<open>null\<close> and \<open>undefined\<close> it raises a \<open>TypeError\<close>, and on an
  object with a \<open>toString\<close> of its own it may raise any value.  \<open>Shows t\<close> is a value
  whose \<open>toString()\<close> returns the text \<open>t\<close>, \<open>Raises v\<close> a value whose \<open>toString()\<close>
  throws \<open>v\<close>.  A function that may throw returns \<open>Inl\<close> of the thrown value or \<open>Inr\<close>
  of its result.
\<close>

datatype thrown = Shows string | Raises thrown

text \<open>\<open>error.toString()\<close>.\<close>

fun toStringOf :: "thrown \<Rightarrow> thrown + string" where
  "toStringOf (Shows t) = Inr t"
| "toStringOf (Raises v) = Inl v"

text \<open>
  The external account.  One use of \<open>AdsApp\<close> for a pending keyword (select the campaign,
  ad group or shared list by id, add the negative keyword, read the name) has one of four
  outcomes: an exception, no entity with that id, success with the entity's name, or an
  unsuccessful operation with its error list.  The account is a parameter: it maps the
  kind of entity, the id, the keyword text and the match type to the outcome, and a run is
  given the account as each of its pending keywords meets it, by the keyword's position in
  the run.
\<close>

datatype ads_outcome =
    Throws thrown
  | NotFound
  | Succeeded string
  | Rejected "string list"

type_synonym ads_app = "NegativeKeywordLevel \<Rightarrow> string \<Rightarrow> string \<Rightarrow> string \<Rightarrow> ads_outcome"

text \<open>The double quote character of the success messages.\<close>

definition dquote :: string where
  "dquote = [CHR 0x22]"

text \<open>\<open>{success: true, message}\<close> or \<open>{success: false, error}\<close>.\<close>

datatype op_result = Success string | Failure string

text \<open>The three level functions.  The \<open>catch\<close> of each builds its message from
  \<open>error.toString()\<close>, and throws in turn when that call does.\<close>

definition addCampaignNegativeKeyword :: "ads_app \<Rightarrow> pending_kw \<Rightarrow> thrown + op_result" where
  "addCampaignNegativeKeyword ads keyword =
     (if p_campaignId keyword = [] then Inr (Failure ''Campaign ID is required'')
      else
        (case ads CAMPAIGN (p_campaignId keyword) (p_keywordText keyword) (p_matchType keyword) of
           Throws e \<Rightarrow>
             (case toStringOf e of
                Inl e' \<Rightarrow> Inl e'
              | Inr t \<Rightarrow> Inr (Failure (''Campaign error: '' @ t)))
         | NotFound \<Rightarrow> Inr (Failure (''Campaign not found: '' @ p_campaignId keyword))
         | Succeeded name \<Rightarrow> Inr (Success (''Added to campaign '' @ dquote @ name @ dquote))
         | Rejected errs \<Rightarrow>
             Inr (Failure (if length errs > 0 then hd errs
                           else ''Unknown error adding campaign negative keyword''))))"

definition addAdGroupNegativeKeyword :: "ads_app \<Rightarrow> pending_kw \<Rightarrow> thrown + op_result" where
  "addAdGroupNegativeKeyword ads keyword =
     (if p_adGroupId keyword = [] then Inr (Failure ''Ad Group ID is required'')
      else
        (case ads AD_GROUP (p_adGroupId keyword) (p_keywordText keyword) (p_matchType keyword) of
           Throws e \<Rightarrow>
             (case toStringOf e of
                Inl e' \<Rightarrow> Inl e'
              | Inr t \<Rightarrow> Inr (Failure (''Ad group error: '' @ t)))
         | NotFound \<Rightarrow> Inr (Failure (''Ad group not found: '' @ p_adGroupId keyword))
         | Succeeded name \<Rightarrow> Inr (Success (''Added to ad group '' @ dquote @ name @ dquote))
         | Rejected errs \<Rightarrow>
             Inr (Failure (if length errs > 0 then hd errs
                           else ''Unknown error adding ad group negative keyword''))))"

definition addSharedListNegativeKeyword :: "ads_app \<Rightarrow> pending_kw \<Rightarrow> thrown + op_result" where
  "addSharedListNegativeKeyword ads keyword =
     (if p_sharedListId keyword = [] then Inr (Failure ''Shared List ID is required'')
      else
        (case ads SHARED_LIST (p_sharedListId keyword) (p_keywordText keyword)
                (p_matchType keyword) of
           Throws e \<Rightarrow>
             (case toStringOf e of
                Inl e' \<Rightarrow> Inl e'
              | Inr t \<Rightarrow> Inr (Failure (''Shared list error: '' @ t)))
         | NotFound \<Rightarrow> Inr (Failure (''Shared list not found: '' @ p_sharedListId keyword))
         | Succeeded name \<Rightarrow> Inr (Success (''Added to shared list '' @ dquote @ name @ dquote))
         | Rejected errs \<Rightarrow>
             Inr (Failure (if length errs > 0 then hd errs
                           else ''Unknown error adding shared list negative keyword''))))"

text \<open>\<open>addNegativeKeywordToGoogleAds\<close>: the \<open>switch\<close> on the level inside a \<open>try\<close>
  whose \<open>catch\<close> returns \<open>{success: false, error: error.toString()}\<close>.\<close>

definition addNegativeKeywordToGoogleAds :: "ads_app \<Rightarrow> pending_kw \<Rightarrow> thrown + op_result" where
  "addNegativeKeywordToGoogleAds ads keyword =
     (case (if p_level keyword = ''CAMPAIGN'' then addCampaignNegativeKeyword ads keyword
            else if p_level keyword = ''AD_GROUP'' then addAdGroupNegativeKeyword ads keyword
            else if p_level keyword = ''SHARED_LIST''
              then addSharedListNegativeKeyword ads keyword
            else Inr (Failure (''Invalid keyword level: '' @ p_level keyword))) of
        Inr result \<Rightarrow> Inr result
      | Inl e \<Rightarrow>
          (case toStringOf e of
             Inl e' \<Rightarrow> Inl e'
           | Inr t \<Rightarrow> Inr (Failure t)))"

text \<open>\<open>updateKeywordStatus\<close>: columns 12, 13 and 14 of the row are set; a row number
  beyond the last row would make the sheet grow, row number 0 raises inside the function,
  which logs and returns.\<close>

definition updateKeywordStatus :: "sheet \<Rightarrow> nat \<Rightarrow> string \<Rightarrow> string \<Rightarrow> string \<Rightarrow> sheet" where
  "updateKeywordStatus sh n status message now =
     (if n = 0 then sh
      else if n \<le> length sh
      then sh [n - 1 := (sh ! (n - 1))
                 \<lparr> r_status := status, r_message := message, r_processedDate := now \<rparr>]
      else sh @ replicate (n - 1 - length sh) blankRow
             @ [blankRow \<lparr> r_status := status, r_message := message,
                           r_processedDate := now \<rparr>])"

record result_entry =
  re_keyword :: string
  re_level :: string
  re_success :: bool
  re_message :: string

record run_state =
  rs_sheet :: sheet
  successCount :: nat
  failureCount :: nat
  results :: "result_entry list"

text \<open>One iteration of the worker's \<open>forEach\<close>; \<open>now\<close> is the time stamp that
  \<open>updateKeywordStatus\<close> reads.  The \<open>catch\<close> of the iteration counts a failure, logs
  \<open>error.toString()\<close> and marks the row FAILED with that text; when the call of
  \<open>toString()\<close> throws, the iteration throws.\<close>

definition processKeyword ::
  "ads_app \<Rightarrow> string \<Rightarrow> pending_kw \<Rightarrow> run_state \<Rightarrow> thrown + run_state" where
  "processKeyword ads now keyword st =
     (case addNegativeKeywordToGoogleAds ads keyword of
        Inr (Success message) \<Rightarrow>
          Inr (st \<lparr> successCount := successCount st + 1,
                    rs_sheet := updateKeywordStatus (rs_sheet st) (rowIndex keyword)
                                  ''ACTIVE'' message now,
                    results := results st @
                      [\<lparr> re_keyword = p_keywordText keyword, re_level = p_level keyword,
                         re_success = True, re_message = message \<rparr>] \<rparr>)
      | Inr (Failure err) \<Rightarrow>
          Inr (st \<lparr> failureCount := failureCount st + 1,
                    rs_sheet := updateKeywordStatus (rs_sheet st) (rowIndex keyword)
                                  ''FAILED'' err now,
                    results := results st @
                      [\<lparr> re_keyword = p_keywordText keyword, re_level = p_level keyword,
                         re_success = False, re_message = err \<rparr>] \<rparr>)
      | Inl e \<Rightarrow>
          (case toStringOf e of
             Inl e' \<Rightarrow> Inl e'
           | Inr t \<Rightarrow>
               Inr (st \<lparr> failureCount := failureCount st + 1,
                         rs_sheet := updateKeywordStatus (rs_sheet st) (rowIndex keyword)
                                       ''FAILED'' t now \<rparr>)))"

text \<open>The \<open>forEach\<close> over the pending keywords: an iteration that throws ends it.  The
  result is the state reached and the value thrown, if any.\<close>

fun processLoop ::
  "(nat \<Rightarrow> ads_app) \<Rightarrow> (nat \<Rightarrow> string) \<Rightarrow> nat \<Rightarrow> pending_kw list \<Rightarrow> run_state
     \<Rightarrow> run_state \<times> thrown option" where
  "processLoop ads clock i [] st = (st, None)"
| "processLoop ads clock i (keyword # pendingKeywords) st =
     (case processKeyword (ads i) (clock i) keyword st of
        Inl e \<Rightarrow> (st, Some e)
      | Inr st' \<Rightarrow> processLoop ads clock (Suc i) pendingKeywords st')"

text \<open>\<open>updateProcessingTriggerStatus\<close>: the most recent PENDING trigger row, if any, is
  completed.\<close>

definition updateProcessingTriggerStatus ::
  "trigger_row list option \<Rightarrow> nat \<Rightarrow> nat \<Rightarrow> string \<Rightarrow> trigger_row list option" where
  "updateProcessingTriggerStatus triggers sc fc now =
     (case triggers of
        None \<Rightarrow> None
      | Some t \<Rightarrow>
          if length t \<le> 1 then Some t
          else
            (case filter (\<lambda>i. t_status (t ! i) = ''PENDING'') (rev [1..<length t]) of
               [] \<Rightarrow> Some t
             | i # _ \<Rightarrow>
                 Some (t [i := (t ! i)
                   \<lparr> t_status := ''COMPLETED'',
                     t_message := ''Processed: '' @ nat_to_string sc @ '' successful, ''
                                    @ nat_to_string fc @ '' failed'',
                     t_processedDate := now \<rparr>])))"

text \<open>\<open>processPendingNegativeKeywords\<close>: the result (\<open>None\<close> for \<open>null\<close>) or the value
  thrown, and the spreadsheet after the run.  \<open>ads i\<close> is the account as the \<open>i\<close>-th
  pending keyword of the run meets it, \<open>clock i\<close> the time stamp read while its row is
  updated, and \<open>clock\<close> at the number of pending keywords the one read for the trigger
  row.  When the loop throws, the outer \<open>catch\<close> logs \<open>error.toString()\<close> and returns
  \<open>null\<close>; the rows written before stay written.\<close>

definition processPendingNegativeKeywords ::
  "(nat \<Rightarrow> ads_app) \<Rightarrow> (nat \<Rightarrow> string) \<Rightarrow> spreadsheet
     \<Rightarrow> (thrown + result_entry list option) \<times> spreadsheet" where
  "processPendingNegativeKeywords ads clock ss =
     (case negativeKeywordsSheet ss of
        None \<Rightarrow> (Inr None, ss)
      | Some sh \<Rightarrow>
          let pendingKeywords = getPendingKeywords sh
          in if length pendingKeywords = 0 then (Inr (Some []), ss)
             else
               (case processLoop ads clock 0 pendingKeywords
                       \<lparr> rs_sheet = sh, successCount = 0, failureCount = 0, results = [] \<rparr> of
                  (st, None) \<Rightarrow>
                    (Inr (Some (results st)),
                     ss \<lparr> negativeKeywordsSheet := Some (rs_sheet st),
                          processingTriggersSheet :=
                            updateProcessingTriggerStatus (processingTriggersSheet ss)
                              (successCount st) (failureCount st)
                              (clock (length pendingKeywords)) \<rparr>)
                | (st, Some e) \<Rightarrow>
                    ((case toStringOf e of
                        Inl e' \<Rightarrow> Inl e'
                      | Inr t \<Rightarrow> Inr None),
                     ss \<lparr> negativeKeywordsSheet := Some (rs_sheet st) \<rparr>)))"

section \<open>Example inputs\<close>

text \<open>A performance row with the given search term, campaign name, ad group name,
  cost, clicks and conversions.\<close>

definition exampleRow ::
  "string \<Rightarrow> string \<Rightarrow> string \<Rightarrow> real \<Rightarrow> real \<Rightarrow> real \<Rightarrow> SearchTermData" where
  "exampleRow st cn agn c cl cv =
     \<lparr> searchTerm = st, campaignName = cn, adGroupName = agn, keywordText = st,
       cost = c, clicks = cl, impressions = cl * 10, conversions = cv,
       costPerConversion = 0, ctr = 0, cpc = 0 \<rparr>"

text \<open>The rows of the scoring scenario of the spec.\<close>

definition scenarioRows :: "SearchTermData list" where
  "scenarioRows =
     [exampleRow ''free shipping'' ''Shoes'' ''Running'' 20 5 0,
      exampleRow ''red shoes'' ''Shoes'' ''Running'' 3 2 0,
      exampleRow ''running shoes'' ''Shoes'' ''Running'' 50 10 2]"


text \<open>A search term that shares two of its three words with its ad group's name.\<close>

definition levelExample :: SearchTermData where
  "levelExample = exampleRow ''Running Shoes Sale'' ''Footwear'' ''Running Shoes'' 12 4 0"

text \<open>A search term with two spaces between its two words, and a row whose ad group has
  no name.\<close>

definition doubleSpaceRow :: SearchTermData where
  "doubleSpaceRow = exampleRow ''blue  hats'' ''shoes'' ''running'' 12 4 0"

definition unnamedGroupRow :: SearchTermData where
  "unnamedGroupRow = exampleRow ''blue hats'' ''shoes'' [] 12 4 0"

text \<open>A request with the given text, match type, level and campaign, ad group and
  shared list ids; the name fields are absent.\<close>

definition exampleKeyword ::
  "string \<Rightarrow> string \<Rightarrow> string \<Rightarrow> string option \<Rightarrow> string option \<Rightarrow> string option \<Rightarrow> keyword" where
  "exampleKeyword t m l c g s =
     \<lparr> kw_text = Some t, kw_matchType = Some m, kw_level = Some l,
       kw_campaignId = c, kw_campaignName = None, kw_adGroupId = g, kw_adGroupName = None,
       kw_sharedListId = s, kw_sharedListName = None \<rparr>"

text \<open>The two submissions of the spec's scenarios, a request with a character outside
  the allowed class, and one whose text is blank.\<close>

definition validKeyword :: keyword where
  "validKeyword = exampleKeyword ''free shipping'' ''BROAD'' ''CAMPAIGN'' (Some ''123'') None None"

definition secondValidKeyword :: keyword where
  "secondValidKeyword = exampleKeyword ''cheap'' ''PHRASE'' ''CAMPAIGN'' (Some ''456'') None None"


definition oddCharKeyword :: keyword where
  "oddCharKeyword = exampleKeyword ''a@b'' ''EXACT'' ''CAMPAIGN'' (Some ''123'') None None"

definition blankKeyword :: keyword where
  "blankKeyword = exampleKeyword ''   '' ''EXACT'' ''CAMPAIGN'' (Some ''123'') None None"

text \<open>A sheet row with the given id, keyword text, level, campaign id and status.\<close>

definition exampleSheetRow :: "string \<Rightarrow> string \<Rightarrow> string \<Rightarrow> string \<Rightarrow> string \<Rightarrow> nk_row" where
  "exampleSheetRow i t l c s =
     \<lparr> r_id = i, r_keywordText = t, r_matchType = ''EXACT'', r_level = l,
       r_campaignId = c, r_campaignName = [], r_adGroupId = [], r_adGroupName = [],
       r_sharedListId = [], r_sharedListName = [],
       r_addedDate = ''2023-11-14T22:00:00.000Z'', r_status = s,
       r_message = [], r_processedDate = [] \<rparr>"

definition headerRow :: nk_row where
  "headerRow =
     \<lparr> r_id = ''ID'', r_keywordText = ''Keyword Text'', r_matchType = ''Match Type'',
       r_level = ''Level'', r_campaignId = ''Campaign ID'', r_campaignName = ''Campaign Name'',
       r_adGroupId = ''Ad Group ID'', r_adGroupName = ''Ad Group Name'',
       r_sharedListId = ''Shared List ID'', r_sharedListName = ''Shared List Name'',
       r_addedDate = ''Added Date'', r_status = ''Status'', r_message = ''Message'',
       r_processedDate = ''Processed Date'' \<rparr>"

text \<open>A ledger with the header and one row written by the collector.\<close>

definition exampleSheet :: sheet where
  "exampleSheet = [headerRow, exampleSheetRow ''neg_1'' ''jobs'' ''CAMPAIGN'' ''123'' ''ACTIVE'']"


text \<open>An environment whose clock advances by one millisecond per request.\<close>

definition exampleEnv :: env where
  "exampleEnv i = \<lparr> d_now = 1700000000000 + i, d_random = ''0.4fzyo82mvyr'',
                    d_iso = ''2023-11-14T22:13:20.000Z'' \<rparr>"


text \<open>A ledger whose only data row is PENDING but has an id that does not start with
  \<open>new_\<close>.\<close>

definition foreignIdSheet :: sheet where
  "foreignIdSheet = [headerRow, exampleSheetRow ''kw_7'' ''jobs'' ''CAMPAIGN'' ''123'' ''PENDING'']"

text \<open>A ledger with the collector's row and two submitted rows, the second of them
  without a status.\<close>

definition queueSheet :: sheet where
  "queueSheet =
     [headerRow,
      exampleSheetRow ''neg_1'' ''jobs'' ''CAMPAIGN'' ''123'' ''ACTIVE'',
      exampleSheetRow ''new_1700000000000_4fzyo82mv'' ''free shipping'' ''CAMPAIGN'' ''123'' ''PENDING'',
      exampleSheetRow ''new_1700000000001_9x2k1q0ab'' ''cheap'' ''CAMPAIGN'' ''456'' []]"

definition queueSpreadsheet :: spreadsheet where
  "queueSpreadsheet =
     \<lparr> negativeKeywordsSheet = Some queueSheet, processingTriggersSheet = None \<rparr>"

text \<open>An account in which every use of campaign 123 throws an \<open>Error\<close> and campaign
  456 exists under the name Shoes; one in which campaign 123 throws \<open>null\<close> instead, on
  which \<open>toString()\<close> raises a \<open>TypeError\<close>; and one in which it throws an object whose
  \<open>toString\<close> throws an object whose \<open>toString\<close> throws \<open>null\<close>.\<close>

definition throwingAds :: "nat \<Rightarrow> ads_app" where
  "throwingAds i kind eid kwtext mt =
     (if eid = ''123'' then Throws (Shows ''Error: boom'')
      else if eid = ''456'' then Succeeded ''Shoes''
      else NotFound)"

definition nullThrowingAds :: "nat \<Rightarrow> ads_app" where
  "nullThrowingAds i kind eid kwtext mt =
     (if eid = ''123''
      then Throws (Raises (Shows ''TypeError: Cannot read properties of null''))
      else if eid = ''456'' then Succeeded ''Shoes''
      else NotFound)"

definition escapingAds :: "nat \<Rightarrow> ads_app" where
  "escapingAds i kind eid kwtext mt =
     (if eid = ''123''
      then Throws (Raises (Raises (Raises (Shows ''TypeError: Cannot read properties of null''))))
      else if eid = ''456'' then Succeeded ''Shoes''
      else NotFound)"

definition exampleClock :: "nat \<Rightarrow> string" where
  "exampleClock i = ''2023-11-14T22:15:0'' @ nat_to_string i @ ''.000Z''"

section \<open>Notions used in the statements\<close>

text \<open>The status and the message that the worker writes into the row of a request, by
  what \<open>addNegativeKeywordToGoogleAds\<close> did: ACTIVE with \<open>result.message\<close>, FAILED with
  \<open>result.error\<close>, FAILED with the text of the exception that reached the handler of the
  loop; nothing where that handler cannot take the text of the exception either.\<close>

fun written :: "thrown + op_result \<Rightarrow> (string \<times> string) option" where
  "written (Inr (Success message)) = Some (''ACTIVE'', message)"
| "written (Inr (Failure err)) = Some (''FAILED'', err)"
| "written (Inl (Shows t)) = Some (''FAILED'', t)"
| "written (Inl (Raises v)) = None"

text \<open>The row with a given row number of the ledger sheet of a spreadsheet, if there is
  one.\<close>

definition ledgerRow :: "spreadsheet \<Rightarrow> nat \<Rightarrow> nk_row option" where
  "ledgerRow ss n =
     (case negativeKeywordsSheet ss of
        None \<Rightarrow> None
      | Some sh \<Rightarrow> if 1 \<le> n \<and> n \<le> length sh then Some (sh ! (n - 1)) else None)"

text \<open>\<open>t\<close> occurs in \<open>s\<close> as a substring.\<close>

abbreviation occursIn :: "string \<Rightarrow> string \<Rightarrow> bool" where
  "occursIn t s \<equiv> (\<exists>p q. s = p @ t @ q)"



text \<open>The tokens of a string in the sense of the specification ("a single token",
  "whitespace-tokenized words"): its maximal runs of characters that are not white space.
  This notion is not taken from the code, which splits at single space characters; it
  serves to state what the specification says.\<close>

fun piecesBy :: "(char \<Rightarrow> bool) \<Rightarrow> string \<Rightarrow> string list" where
  "piecesBy P [] = [[]]"
| "piecesBy P (c # cs) =
     (if P c then [] # piecesBy P cs
      else (case piecesBy P cs of
              [] \<Rightarrow> [[c]]
            | p # ps \<Rightarrow> (c # p) # ps))"

definition whitespaceTokens :: "string \<Rightarrow> string list" where
  "whitespaceTokens s = filter (\<lambda>w. w \<noteq> []) (piecesBy isWhiteSpace s)"

section \<open>Sums over filtered rows\<close>

lemma foldl_plus_sum_list:
  "foldl (\<lambda>total item. total + f item) (a::real) xs = a + sum_list (map f xs)"
  by (induction xs arbitrary: a) simp_all

lemma sum_list_filter_le:
  fixes f :: "'a \<Rightarrow> real"
  assumes "\<And>x. x \<in> set xs \<Longrightarrow> P x \<Longrightarrow> \<not> Q x \<Longrightarrow> 0 \<le> f x"
    and "\<And>x. Q x \<Longrightarrow> P x"
  shows "sum_list (map f (filter Q xs)) \<le> sum_list (map f (filter P xs))"
  using assms
proof (induction xs)
  case Nil
  then show ?case by simp
next
  case (Cons x xs)
  have ih: "sum_list (map f (filter Q xs)) \<le> sum_list (map f (filter P xs))"
    using Cons by simp
  show ?case
  proof (cases "Q x")
    case True
    then have "P x" using Cons.prems(2) by blast
    with True ih show ?thesis by simp
  next
    case False
    show ?thesis
    proof (cases "P x")
      case True
      then have "0 \<le> f x" using False Cons.prems(1) by simp
      with True False ih show ?thesis by simp
    next
      case nP: False
      with False ih show ?thesis by simp
    qed
  qed
qed

section \<open>Wasted spend and potential savings\<close>

text \<open>
  Claim C10.  For every list of performance rows in which every row's cost is
  nonnegative, \<open>calculatePotentialSavings\<close> never exceeds \<open>calculateWastedSpend\<close>.
\<close>

theorem potentialSavings_le_wastedSpend:
  assumes "\<forall>item \<in> set data. 0 \<le> cost item"
  shows "calculatePotentialSavings data \<le> calculateWastedSpend data"
proof -
  have "sum_list (map cost (filter (\<lambda>item. conversions item = 0 \<and> cost item > 5) data))
        \<le> sum_list (map cost (filter (\<lambda>item. conversions item = 0) data))"
    by (rule sum_list_filter_le) (use assms in auto)
  then show ?thesis
    by (simp add: calculatePotentialSavings_def calculateWastedSpend_def foldl_plus_sum_list)
qed

text \<open>The rows of the scoring scenario have nonnegative costs.\<close>

theorem potentialSavings_le_wastedSpend_witness:
  "list_all (\<lambda>item. 0 \<le> cost item) scenarioRows
   \<and> calculatePotentialSavings scenarioRows \<le> calculateWastedSpend scenarioRows"
proof -
  have nonneg: "\<forall>item \<in> set scenarioRows. 0 \<le> cost item"
    by (simp add: scenarioRows_def exampleRow_def)
  from potentialSavings_le_wastedSpend [OF nonneg] nonneg show ?thesis
    by (simp add: list_all_iff)
qed

section \<open>The scorer's filter\<close>

lemma sum_list_mset_cong:
  fixes f :: "'a \<Rightarrow> real"
  shows "mset xs = mset ys \<Longrightarrow> sum_list (map f xs) = sum_list (map f ys)"
  by (metis mset_map sum_mset_sum_list)

lemma mset_identifyOpportunities:
  "mset (identifyOpportunities data) =
     image_mset toOpportunity
       (filter_mset (\<lambda>item. conversions item = 0 \<and> cost item > 5 \<and> clicks item > 0) (mset data))"
  by (simp add: identifyOpportunities_def sortBySavingsDesc_def)

lemma set_identifyOpportunities:
  "set (identifyOpportunities data) =
     toOpportunity ` {item \<in> set data. conversions item = 0 \<and> cost item > 5 \<and> clicks item > 0}"
  by (simp add: identifyOpportunities_def sortBySavingsDesc_def)

text \<open>
  Claim C5.  \<open>identifyOpportunities\<close> produces one candidate for each row with
  \<open>conversions = 0\<close>, \<open>cost > 5\<close> and \<open>clicks > 0\<close> and for no other row (as multisets, the
  candidates are the images of exactly the qualifying rows); every candidate has these
  three properties, no qualifying row is omitted, and a candidate's \<open>potentialSavings\<close>
  is the cost of its row.
\<close>

theorem identifyOpportunities_exact_filter:
  "mset (identifyOpportunities data)
     = image_mset toOpportunity
         (filter_mset (\<lambda>item. conversions item = 0 \<and> cost item > 5 \<and> clicks item > 0) (mset data))
   \<and> (\<forall>c \<in> set (identifyOpportunities data).
         opp_conversions c = 0 \<and> opp_cost c > 5 \<and> opp_clicks c > 0 \<and> potentialSavings c = opp_cost c)
   \<and> (\<forall>item \<in> set data. conversions item = 0 \<and> cost item > 5 \<and> clicks item > 0
         \<longrightarrow> toOpportunity item \<in> set (identifyOpportunities data))
   \<and> potentialSavings (toOpportunity item) = cost item
   \<and> opp_cost (toOpportunity item) = cost item"
proof -
  have a: "\<forall>c \<in> set (identifyOpportunities data).
         opp_conversions c = 0 \<and> opp_cost c > 5 \<and> opp_clicks c > 0 \<and> potentialSavings c = opp_cost c"
    unfolding set_identifyOpportunities by (auto simp: toOpportunity_def)
  have b: "\<forall>item \<in> set data. conversions item = 0 \<and> cost item > 5 \<and> clicks item > 0
         \<longrightarrow> toOpportunity item \<in> set (identifyOpportunities data)"
    unfolding set_identifyOpportunities by blast
  have c: "potentialSavings (toOpportunity item) = cost item \<and> opp_cost (toOpportunity item) = cost item"
    by (simp add: toOpportunity_def)
  from mset_identifyOpportunities [of data] a b c show ?thesis by blast
qed

text \<open>On the scoring scenario of the spec the first row qualifies and is the only
  candidate, with potential savings 20.\<close>

theorem identifyOpportunities_exact_filter_witness:
  "hd scenarioRows \<in> set scenarioRows
   \<and> conversions (hd scenarioRows) = 0 \<and> cost (hd scenarioRows) = 20 \<and> clicks (hd scenarioRows) = 5
   \<and> toOpportunity (hd scenarioRows) \<in> set (identifyOpportunities scenarioRows)
   \<and> potentialSavings (toOpportunity (hd scenarioRows)) = 20
   \<and> size (mset (identifyOpportunities scenarioRows)) = 1"
proof -
  have r: "hd scenarioRows \<in> set scenarioRows
     \<and> conversions (hd scenarioRows) = 0 \<and> cost (hd scenarioRows) = 20 \<and> clicks (hd scenarioRows) = 5"
    by (simp add: scenarioRows_def exampleRow_def)
  have n: "size (filter_mset (\<lambda>item. conversions item = 0 \<and> cost item > 5 \<and> clicks item > 0)
              (mset scenarioRows)) = 1"
    by (simp add: scenarioRows_def exampleRow_def)
  from identifyOpportunities_exact_filter [of scenarioRows "hd scenarioRows"] r n
  show ?thesis by simp
qed

section \<open>Aggregator total against scorer total\<close>









section \<open>Strings: lower case, splitting, substrings\<close>





lemma js_split_not_Nil: "js_split sep s \<noteq> []"
  by (induction s) (auto split: list.splits)

lemma js_split_no_sep: "sep \<notin> set s \<Longrightarrow> js_split sep s = [s]"
  by (induction s) (auto split: list.splits)


lemma js_split_append_sep:
  "sep \<notin> set w \<Longrightarrow> js_split sep (w @ sep # rest) = w # js_split sep rest"
  by (induction w) (auto split: list.splits)

lemma js_split_join:
  "ws \<noteq> [] \<Longrightarrow> \<forall>w \<in> set ws. sep \<notin> set w \<Longrightarrow> js_split sep (js_join [sep] ws) = ws"
proof (induction ws)
  case Nil
  then show ?case by simp
next
  case (Cons x ws)
  show ?case
  proof (cases ws)
    case Nil
    with Cons.prems show ?thesis by (simp add: js_split_no_sep)
  next
    case (Cons y ys)
    have ih: "js_split sep (js_join [sep] (y # ys)) = y # ys"
      using Cons.IH Cons.prems Cons by simp
    have "js_split sep (x @ sep # js_join [sep] (y # ys)) = x # js_split sep (js_join [sep] (y # ys))"
      by (rule js_split_append_sep) (use Cons.prems in simp)
    with ih Cons show ?thesis by simp
  qed
qed

text \<open>Every string has such pieces: those of \<open>js_split\<close> contain no separator and
  join to the string.\<close>

lemma js_join_split: "js_join [sep] (js_split sep s) = s"
proof (induction s)
  case Nil
  then show ?case by simp
next
  case (Cons c cs)
  obtain p ps where ps: "js_split sep cs = p # ps"
    using js_split_not_Nil [of sep cs] by (cases "js_split sep cs") auto
  show ?case
  proof (cases "c = sep")
    case True
    then show ?thesis using Cons ps by simp
  next
    case False
    have "js_join [sep] ((c # p) # ps) = c # js_join [sep] (p # ps)"
      by (cases ps) simp_all
    with False Cons ps show ?thesis by simp
  qed
qed

lemma js_split_pieces: "\<forall>w \<in> set (js_split sep s). sep \<notin> set w"
proof (induction s)
  case Nil
  then show ?case by simp
next
  case (Cons c cs)
  obtain p ps where ps: "js_split sep cs = p # ps"
    using js_split_not_Nil [of sep cs] by (cases "js_split sep cs") auto
  with Cons show ?case by auto
qed

lemma startsWith_iff: "startsWith s t \<longleftrightarrow> (\<exists>q. s = t @ q)"
  by (induction s t rule: startsWith.induct) auto

lemma js_includes_iff: "js_includes s t \<longleftrightarrow> (\<exists>p q. s = p @ t @ q)"
proof (induction s)
  case Nil
  then show ?case by auto
next
  case (Cons x xs)
  show ?case
  proof
    assume "js_includes (x # xs) t"
    then consider "startsWith (x # xs) t" | "js_includes xs t" by auto
    then show "\<exists>p q. x # xs = p @ t @ q"
    proof cases
      case 1
      then obtain q where "x # xs = t @ q" by (auto simp: startsWith_iff)
      then have "x # xs = [] @ t @ q" by simp
      then show ?thesis by blast
    next
      case 2
      then obtain p q where "xs = p @ t @ q" using Cons by blast
      then have "x # xs = (x # p) @ t @ q" by simp
      then show ?thesis by blast
    qed
  next
    assume "\<exists>p q. x # xs = p @ t @ q"
    then obtain p q where pq: "x # xs = p @ t @ q" by blast
    show "js_includes (x # xs) t"
    proof (cases p)
      case Nil
      with pq have "startsWith (x # xs) t" by (auto simp: startsWith_iff)
      then show ?thesis by simp
    next
      case (Cons a p')
      with pq have "xs = p' @ t @ q" by simp
      then have "js_includes xs t" using Cons.IH by blast
      then show ?thesis by simp
    qed
  qed
qed






lemma more_than_half:
  "0 < n \<Longrightarrow> (real m / real n > 0.5) \<longleftrightarrow> (2 * m > n)"
proof -
  assume n: "0 < n"
  have "(real m / real n > 1 / 2) \<longleftrightarrow> (real n < 2 * real m)"
    using n by (simp add: field_simps)
  also have "\<dots> \<longleftrightarrow> (n < 2 * m)"
    by (metis of_nat_less_iff of_nat_mult of_nat_numeral)
  finally show ?thesis by simp
qed

section \<open>Match type recommendation\<close>




section \<open>Level recommendation\<close>

text \<open>
  Claim C9 as stated (the words are the white-space tokens) fails on a search term with
  two spaces between its words: "blue  hats" has the tokens "blue" and "hats", neither of
  which overlaps with "running" or "shoes", so that the claim gives SHARED_LIST; the code
  splits at every single space, the empty piece between the two spaces overlaps with every
  word, and the recommendation is CAMPAIGN.  Likewise an ad group without a name has no
  token, and the recommendation is AD_GROUP.
\<close>

theorem whitespace_words_counterexample:
  "whitespaceTokens (searchTerm doubleSpaceRow) = [''blue'', ''hats'']
   \<and> whitespaceTokens (adGroupName doubleSpaceRow) = [''running'']
   \<and> whitespaceTokens (campaignName doubleSpaceRow) = [''shoes'']
   \<and> \<not> js_includes ''running'' ''blue'' \<and> \<not> js_includes ''blue'' ''running''
   \<and> \<not> js_includes ''running'' ''hats'' \<and> \<not> js_includes ''hats'' ''running''
   \<and> \<not> js_includes ''shoes'' ''blue'' \<and> \<not> js_includes ''blue'' ''shoes''
   \<and> \<not> js_includes ''shoes'' ''hats'' \<and> \<not> js_includes ''hats'' ''shoes''
   \<and> recommendLevel doubleSpaceRow = CAMPAIGN
   \<and> whitespaceTokens (adGroupName unnamedGroupRow) = []
   \<and> recommendLevel unnamedGroupRow = AD_GROUP"
proof -
  have a: "whitespaceTokens (searchTerm doubleSpaceRow) = [''blue'', ''hats'']"
    "whitespaceTokens (adGroupName doubleSpaceRow) = [''running'']"
    "whitespaceTokens (campaignName doubleSpaceRow) = [''shoes'']"
    "whitespaceTokens (adGroupName unnamedGroupRow) = []"
    unfolding doubleSpaceRow_def unnamedGroupRow_def exampleRow_def by code_simp+
  have b: "\<not> js_includes ''running'' ''blue''" "\<not> js_includes ''blue'' ''running''"
    "\<not> js_includes ''running'' ''hats''" "\<not> js_includes ''hats'' ''running''"
    "\<not> js_includes ''shoes'' ''blue''" "\<not> js_includes ''blue'' ''shoes''"
    "\<not> js_includes ''shoes'' ''hats''" "\<not> js_includes ''hats'' ''shoes''"
    by simp_all
  have s1: "js_split CHR '' '' (toLowerCase ''blue  hats'') = [''blue'', [], ''hats'']"
    "js_split CHR '' '' (toLowerCase ''running'') = [''running'']"
    "js_split CHR '' '' (toLowerCase ''shoes'') = [''shoes'']"
    "js_split CHR '' '' (toLowerCase ''blue hats'') = [''blue'', ''hats'']"
    "js_split CHR '' '' (toLowerCase []) = [[]]"
    by code_simp+
  have c: "recommendLevel doubleSpaceRow = CAMPAIGN"
    unfolding recommendLevel_def isAdGroupSpecific_def isCampaignSpecific_def Let_def
      doubleSpaceRow_def exampleRow_def
    by (simp add: s1)
  have d: "recommendLevel unnamedGroupRow = AD_GROUP"
    unfolding recommendLevel_def isAdGroupSpecific_def isCampaignSpecific_def Let_def
      unnamedGroupRow_def exampleRow_def
    by (simp add: s1)
  from a b c d show ?thesis by (intro conjI)
qed

text \<open>
  Claim C9, amended.  The words of a string are the pieces between its space characters
  (U+0020) after lower-casing: the one non-empty list of strings without a space that,
  joined by single spaces, give the lower-cased string (a piece is empty where two spaces
  meet or the string starts or ends with one or is empty, and an empty piece overlaps
  with every word).  \<open>recommendLevel\<close> returns AD_GROUP if strictly more than 50% of
  the search term's words have a substring overlap, in either direction, with a word of
  the ad group name; otherwise CAMPAIGN if at least one word overlaps, in either direction,
  with a word of the campaign name; otherwise SHARED_LIST.  Lower-casing turns the capitals
  A to Z, and the capitals U+00C0 to U+00DE but for the multiplication sign U+00D7, into
  their small letters, 32 code points further, and leaves every other character as it is:
  the small letters, the digits, the space, and the characters next to the two ranges of
  capitals.
\<close>

theorem recommendLevel_cases:
  assumes st: "js_join '' '' ws = toLowerCase (searchTerm item)" "ws \<noteq> []"
              "\<forall>w \<in> set ws. CHR '' '' \<notin> set w"
    and ag: "js_join '' '' gs = toLowerCase (adGroupName item)" "gs \<noteq> []"
            "\<forall>g \<in> set gs. CHR '' '' \<notin> set g"
    and cn: "js_join '' '' cs = toLowerCase (campaignName item)" "cs \<noteq> []"
            "\<forall>c \<in> set cs. CHR '' '' \<notin> set c"
  shows "recommendLevel item =
     (if 2 * length (filter (\<lambda>w. \<exists>g \<in> set gs. occursIn w g \<or> occursIn g w) ws) > length ws
      then AD_GROUP
      else if (\<exists>w \<in> set ws. \<exists>c \<in> set cs. occursIn w c \<or> occursIn c w) then CAMPAIGN
      else SHARED_LIST)
   \<and> toLowerCase ''ABCDEFGHIJKLMNOPQRSTUVWXYZ'' = ''abcdefghijklmnopqrstuvwxyz''
   \<and> toLowerCase ''@[`{ abcxyz 0123456789'' = ''@[`{ abcxyz 0123456789''
   \<and> map of_char (toLowerCase (map char_of [191, 192, 214, 215, 216, 222, 223, 255 :: nat]))
       = [191, 224, 246, 215, 248, 254, 223, 255 :: nat]"
proof -
  have sw: "js_split CHR '' '' (toLowerCase (searchTerm item)) = ws"
    using js_split_join [OF st(2) st(3)] st(1) by simp
  have gw: "js_split CHR '' '' (toLowerCase (adGroupName item)) = gs"
    using js_split_join [OF ag(2) ag(3)] ag(1) by simp
  have cw: "js_split CHR '' '' (toLowerCase (campaignName item)) = cs"
    using js_split_join [OF cn(2) cn(3)] cn(1) by simp
  have n: "0 < length ws" using st(2) by simp
  have a: "isAdGroupSpecific (searchTerm item) (adGroupName item) \<longleftrightarrow>
      2 * length (filter (\<lambda>w. \<exists>g \<in> set gs. occursIn w g \<or> occursIn g w) ws) > length ws"
    unfolding isAdGroupSpecific_def Let_def sw gw list_ex_iff js_includes_iff
    by (rule more_than_half [OF n])
  have c: "isCampaignSpecific (searchTerm item) (campaignName item) \<longleftrightarrow>
      (\<exists>w \<in> set ws. \<exists>c \<in> set cs. occursIn w c \<or> occursIn c w)"
    unfolding isCampaignSpecific_def Let_def sw cw list_ex_iff js_includes_iff
    by (simp add: filter_empty_conv)
  have level: "recommendLevel item =
     (if 2 * length (filter (\<lambda>w. \<exists>g \<in> set gs. occursIn w g \<or> occursIn g w) ws) > length ws
      then AD_GROUP
      else if (\<exists>w \<in> set ws. \<exists>c \<in> set cs. occursIn w c \<or> occursIn c w) then CAMPAIGN
      else SHARED_LIST)"
    unfolding recommendLevel_def a c ..
  have capitals: "toLowerCase ''ABCDEFGHIJKLMNOPQRSTUVWXYZ'' = ''abcdefghijklmnopqrstuvwxyz''"
    by code_simp
  have others: "toLowerCase ''@[`{ abcxyz 0123456789'' = ''@[`{ abcxyz 0123456789''"
    by code_simp
  have latin: "map of_char (toLowerCase (map char_of [191, 192, 214, 215, 216, 222, 223, 255 :: nat]))
       = [191, 224, 246, 215, 248, 254, 223, 255 :: nat]"
    by (simp add: toLowerCase_def toLowerCaseChar_def)
  from level capitals others latin show ?thesis by (intro conjI)
qed

text \<open>Two of the three words of "Running Shoes Sale" are words of the ad group name
  "Running Shoes": the recommendation is AD_GROUP.\<close>

theorem recommendLevel_cases_witness:
  "js_join '' '' [''running'', ''shoes'', ''sale''] = toLowerCase (searchTerm levelExample)
   \<and> list_all (\<lambda>w. CHR '' '' \<notin> set w) [''running'', ''shoes'', ''sale'']
   \<and> js_join '' '' [''running'', ''shoes''] = toLowerCase (adGroupName levelExample)
   \<and> list_all (\<lambda>w. CHR '' '' \<notin> set w) [''running'', ''shoes'']
   \<and> js_join '' '' [''footwear''] = toLowerCase (campaignName levelExample)
   \<and> list_all (\<lambda>w. CHR '' '' \<notin> set w) [''footwear'']
   \<and> recommendLevel levelExample = AD_GROUP"
proof -
  let ?ws = "[''running'', ''shoes'', ''sale'']"
  let ?gs = "[''running'', ''shoes'']"
  let ?cs = "[''footwear'']"
  have s1: "js_join '' '' ?ws = toLowerCase (searchTerm levelExample)"
    unfolding levelExample_def exampleRow_def by code_simp
  have g1: "js_join '' '' ?gs = toLowerCase (adGroupName levelExample)"
    unfolding levelExample_def exampleRow_def by code_simp
  have c1: "js_join '' '' ?cs = toLowerCase (campaignName levelExample)"
    unfolding levelExample_def exampleRow_def by code_simp
  have s3: "\<forall>w \<in> set ?ws. CHR '' '' \<notin> set w" by simp
  have g3: "\<forall>w \<in> set ?gs. CHR '' '' \<notin> set w" by simp
  have c3: "\<forall>w \<in> set ?cs. CHR '' '' \<notin> set w" by simp
  have count: "filter (\<lambda>w. \<exists>g \<in> set ?gs. occursIn w g \<or> occursIn g w) ?ws = [''running'', ''shoes'']"
    unfolding js_includes_iff [symmetric] by simp
  have r: "recommendLevel levelExample = AD_GROUP"
    using recommendLevel_cases [OF s1 _ s3 g1 _ g3 c1 _ c3, THEN conjunct1] count by simp
  have s4: "list_all (\<lambda>w. CHR '' '' \<notin> set w) ?ws" by simp
  have g4: "list_all (\<lambda>w. CHR '' '' \<notin> set w) ?gs" by simp
  have c4: "list_all (\<lambda>w. CHR '' '' \<notin> set w) ?cs" by simp
  from s1 s4 g1 g4 c1 c4 r show ?thesis by (intro conjI)
qed

section \<open>Request validation\<close>

text \<open>What \<open>validateKeyword\<close> enforces: a text that is not empty after trimming and
  has at most 80 characters, one of the three match types, one of the three levels and
  the ids the level requires.  Emptiness is tested on the trimmed text, so a text of
  white space only counts as missing.\<close>

lemma validateKeyword_accepts_iff:
  "validateKeyword keyword = [] \<longleftrightarrow>
     (\<exists>t. kw_text keyword = Some t \<and> js_trim t \<noteq> [] \<and> length t \<le> 80)
     \<and> kw_matchType keyword \<in> {Some ''EXACT'', Some ''PHRASE'', Some ''BROAD''}
     \<and> ((kw_level keyword = Some ''CAMPAIGN'' \<and> truthy (kw_campaignId keyword))
        \<or> (kw_level keyword = Some ''AD_GROUP'' \<and> truthy (kw_campaignId keyword)
             \<and> truthy (kw_adGroupId keyword))
        \<or> (kw_level keyword = Some ''SHARED_LIST'' \<and> truthy (kw_sharedListId keyword)))"
proof -
  have trim_Nil: "js_trim [] = []" by (simp add: js_trim_def)
  have tx: "(\<not> (\<not> truthy (kw_text keyword) \<or> length (js_trim (orEmpty (kw_text keyword))) = 0)
              \<and> \<not> (truthy (kw_text keyword) \<and> length (orEmpty (kw_text keyword)) > 80))
       \<longleftrightarrow> (\<exists>t. kw_text keyword = Some t \<and> js_trim t \<noteq> [] \<and> length t \<le> 80)"
    by (cases "kw_text keyword") (auto simp: trim_Nil)
  have lv: "''CAMPAIGN'' \<noteq> ''AD_GROUP''" "''CAMPAIGN'' \<noteq> ''SHARED_LIST''" "''AD_GROUP'' \<noteq> ''SHARED_LIST''"
    by simp_all
  show ?thesis
    unfolding validateKeyword_def append_is_Nil_conv
    using tx lv by (auto split: if_splits)
qed

lemma validateKeyword_blankKeyword:
  "matchesAllowedCharacters ''   '' \<and> validateKeyword blankKeyword = [''Keyword text is required'']"
proof -
  have a: "matchesAllowedCharacters ''   ''" by code_simp
  have b: "validateKeyword blankKeyword = [''Keyword text is required'']"
    unfolding blankKeyword_def exampleKeyword_def by code_simp
  from a b show ?thesis by (intro conjI)
qed

lemma validateKeyword_validKeyword: "validateKeyword validKeyword = []"
  unfolding validKeyword_def exampleKeyword_def by code_simp

lemma validateKeyword_secondValidKeyword: "validateKeyword secondValidKeyword = []"
  unfolding secondValidKeyword_def exampleKeyword_def by code_simp


text \<open>
  Claim C2.  \<open>validate\<close> returns an empty error list if and only if all rules hold, and
  in particular a request whose \<open>keywordText\<close> contains a character outside the class
  \<open>[A-Za-z0-9\s\-_.,!?]\<close> yields a non-empty error list.  The code does not do so:
  \<open>validateKeyword\<close> never tests the character class, and the request with the text
  \<open>a@b\<close>, match type EXACT, level CAMPAIGN and campaign id 123 is accepted.
\<close>

theorem validateKeyword_skips_character_class:
  "kw_text oddCharKeyword = Some ''a@b''
   \<and> \<not> matchesAllowedCharacters ''a@b''
   \<and> validateKeyword oddCharKeyword = []"
proof -
  have a: "kw_text oddCharKeyword = Some ''a@b''"
    by (simp add: oddCharKeyword_def exampleKeyword_def)
  have b: "\<not> matchesAllowedCharacters ''a@b''" by code_simp
  have c: "validateKeyword oddCharKeyword = []"
    unfolding oddCharKeyword_def exampleKeyword_def by code_simp
  from a b c show ?thesis by (intro conjI)
qed

text \<open>The accepted request is truthy in its text, within 80 characters, and its second
  character is the one outside the class.\<close>

theorem validateKeyword_skips_character_class_witness:
  "truthy (kw_text oddCharKeyword)
   \<and> length (orEmpty (kw_text oddCharKeyword)) = 3
   \<and> orEmpty (kw_text oddCharKeyword) ! 1 = CHR ''@''
   \<and> \<not> allowedChar CHR ''@''
   \<and> validateKeyword oddCharKeyword = []"
proof -
  have t: "kw_text oddCharKeyword = Some ''a@b''" and v: "validateKeyword oddCharKeyword = []"
    using validateKeyword_skips_character_class by blast+
  have c: "\<not> allowedChar CHR ''@''" by code_simp
  from t v c show ?thesis by simp
qed

section \<open>Appending to the ledger\<close>

lemma addLoop_newRows:
  "as_newRows (addLoop e n ks st) = as_newRows st @ map (\<lambda>(i, k). newRow (e i) k) (enumerate n ks)"
  by (induction ks arbitrary: n st) simp_all

lemma addLoop_result:
  "as_result (addLoop e n ks st) = (as_result st) \<lparr> added := added (as_result st) + length ks \<rparr>"
  by (induction ks arbitrary: n st) simp_all

lemma setValues_append: "setValues (Suc (length sh)) newRows sh = sh @ newRows"
  by (simp add: setValues_def)

lemma addNegativeKeywords_eq:
  "addNegativeKeywords e sh keywords =
     (\<lparr> added = length keywords, failed = 0, errors = [] \<rparr>,
      sh @ map (\<lambda>(i, k). newRow (e i) k) (enumerate 0 keywords))"
  by (simp add: addNegativeKeywords_def Let_def addLoop_newRows addLoop_result setValues_append)

lemma digitChar_not_underscore: "d < 10 \<Longrightarrow> digitChar d \<noteq> CHR ''_''"
proof -
  assume "d < 10"
  then have "d \<in> {0, 1, 2, 3, 4, 5, 6, 7, 8, 9}" by auto
  then show ?thesis by (auto simp: digitChar_def)
qed

lemma digitChar_inj: "d < 10 \<Longrightarrow> d' < 10 \<Longrightarrow> digitChar d = digitChar d' \<Longrightarrow> d = d'"
proof -
  assume a: "d < 10" "d' < 10" "digitChar d = digitChar d'"
  have dist: "distinct ''0123456789''" by simp
  have len: "length ''0123456789'' = 10" by simp
  from a show ?thesis
    unfolding digitChar_def using nth_eq_iff_index_eq [OF dist, of d d'] len by simp
qed

lemma nat_to_string_no_underscore: "CHR ''_'' \<notin> set (nat_to_string n)"
proof (induction n rule: nat_to_string.induct)
  case (1 n)
  show ?case
  proof (cases "n < 10")
    case True
    then show ?thesis
      using digitChar_not_underscore [of n] by (simp add: nat_to_string.simps [of n])
  next
    case False
    have "n mod 10 < 10" by simp
    then have "digitChar (n mod 10) \<noteq> CHR ''_''" by (rule digitChar_not_underscore)
    with False 1 show ?thesis by (simp add: nat_to_string.simps [of n])
  qed
qed

lemma nat_to_string_length: "length (nat_to_string n) = Suc 0 \<longleftrightarrow> n < 10"
proof (cases "n < 10")
  case True
  then show ?thesis by (simp add: nat_to_string.simps [of n])
next
  case False
  have "nat_to_string (n div 10) \<noteq> []"
    by (subst nat_to_string.simps) simp
  then have "length (nat_to_string (n div 10)) \<noteq> 0" by simp
  with False show ?thesis by (simp add: nat_to_string.simps [of n])
qed

lemma nat_to_string_inj: "nat_to_string m = nat_to_string n \<Longrightarrow> m = n"
proof (induction m arbitrary: n rule: nat_to_string.induct)
  case (1 m)
  show ?case
  proof (cases "m < 10")
    case True
    then have "length (nat_to_string m) = Suc 0" by (simp add: nat_to_string_length)
    then have n: "n < 10" using "1.prems" by (simp add: nat_to_string_length)
    from True n "1.prems" have "digitChar m = digitChar n"
      by (simp add: nat_to_string.simps [of m] nat_to_string.simps [of n])
    then show ?thesis using True n by (rule digitChar_inj [rotated 2])
  next
    case False
    then have "length (nat_to_string m) \<noteq> Suc 0" by (simp add: nat_to_string_length)
    then have n: "\<not> n < 10" using "1.prems" by (simp add: nat_to_string_length)
    from False n "1.prems"
    have eq: "nat_to_string (m div 10) @ [digitChar (m mod 10)]
            = nat_to_string (n div 10) @ [digitChar (n mod 10)]"
      by (simp add: nat_to_string.simps [of m] nat_to_string.simps [of n])
    then have "nat_to_string (m div 10) = nat_to_string (n div 10)"
      and d: "digitChar (m mod 10) = digitChar (n mod 10)" by simp_all
    then have q: "m div 10 = n div 10" using "1.IH" False by blast
    have r: "m mod 10 = n mod 10"
      by (rule digitChar_inj [OF _ _ d]) simp_all
    from q r show ?thesis by (metis div_mult_mod_eq)
  qed
qed

lemma first_underscore:
  "CHR ''_'' \<notin> set a \<Longrightarrow> CHR ''_'' \<notin> set b \<Longrightarrow> a @ CHR ''_'' # x = b @ CHR ''_'' # y
     \<Longrightarrow> a = b \<and> x = y"
proof (induction a arbitrary: b)
  case Nil
  then show ?case by (cases b) auto
next
  case (Cons c a)
  then show ?case by (cases b) auto
qed

lemma newId_eq_iff:
  "newId d = newId d' \<longleftrightarrow>
     d_now d = d_now d' \<and> take 9 (drop 2 (d_random d)) = take 9 (drop 2 (d_random d'))"
proof
  assume "newId d = newId d'"
  then have "nat_to_string (d_now d) @ CHR ''_'' # take 9 (drop 2 (d_random d))
           = nat_to_string (d_now d') @ CHR ''_'' # take 9 (drop 2 (d_random d'))"
    by (simp add: newId_def)
  then have "nat_to_string (d_now d) = nat_to_string (d_now d')
           \<and> take 9 (drop 2 (d_random d)) = take 9 (drop 2 (d_random d'))"
    by (rule first_underscore [OF nat_to_string_no_underscore nat_to_string_no_underscore])
  then show "d_now d = d_now d' \<and> take 9 (drop 2 (d_random d)) = take 9 (drop 2 (d_random d'))"
    by (auto dest: nat_to_string_inj)
next
  assume "d_now d = d_now d' \<and> take 9 (drop 2 (d_random d)) = take 9 (drop 2 (d_random d'))"
  then show "newId d = newId d'" by (simp add: newId_def)
qed

lemma map_fst_enumerate: "map fst (enumerate n xs) = [n..<n + length xs]"
  by (simp add: enumerate_eq_zip)

lemma newRows_ids:
  "map r_id (map (\<lambda>(i, k). newRow (e i) k) (enumerate 0 ks)) = map (\<lambda>i. newId (e i)) [0..<length ks]"
proof -
  have "map r_id (map (\<lambda>(i, k). newRow (e i) k) (enumerate 0 ks))
        = map (\<lambda>x. newId (e (fst x))) (enumerate 0 ks)"
    by (simp add: newRow_def case_prod_unfold comp_def)
  also have "\<dots> = map (\<lambda>i. newId (e i)) (map fst (enumerate 0 ks))"
    by (simp only: map_map o_def)
  also have "\<dots> = map (\<lambda>i. newId (e i)) [0..<length ks]"
    unfolding map_fst_enumerate by simp
  finally show ?thesis .
qed

lemma distinct_newIds:
  "distinct (map (\<lambda>i. newId (e i)) xs)
     \<longleftrightarrow> distinct (map (\<lambda>i. (d_now (e i), take 9 (drop 2 (d_random (e i))))) xs)"
  by (simp add: distinct_map inj_on_def newId_eq_iff)

text \<open>
  What \<open>addNegativeKeywords\<close> does to the ledger.  After a call on a batch of valid
  requests every previously existing row is unchanged and at its position, and the new rows
  follow in the order of the batch; the row of request \<open>i\<close> has the id \<open>new_\<close>, the
  clock's milliseconds, \<open>_\<close> and up to nine base-36 digits of a random number, the time
  stamp read for it as \<open>addedDate\<close>, status PENDING and message "Waiting for processing".
  The ids of the new rows are pairwise different exactly when no two requests of the batch
  share both the millisecond and the random digits.
\<close>

lemma addNegativeKeywords_frame:
  assumes valid: "\<forall>k \<in> set keywords. validateKeyword k = []"
  shows "snd (addNegativeKeywords e sh keywords)
     = sh @ map (\<lambda>(i, k). newRow (e i) k) (enumerate 0 keywords)
   \<and> fst (addNegativeKeywords e sh keywords)
     = \<lparr> added = length keywords, failed = 0, errors = [] \<rparr>
   \<and> (\<forall>n < length sh. snd (addNegativeKeywords e sh keywords) ! n = sh ! n)
   \<and> (\<forall>i < length keywords.
        r_id (snd (addNegativeKeywords e sh keywords) ! (length sh + i)) = newId (e i)
      \<and> r_addedDate (snd (addNegativeKeywords e sh keywords) ! (length sh + i)) = d_iso (e i)
      \<and> r_status (snd (addNegativeKeywords e sh keywords) ! (length sh + i)) = ''PENDING''
      \<and> r_message (snd (addNegativeKeywords e sh keywords) ! (length sh + i))
          = ''Waiting for processing''
      \<and> kw_text (keywords ! i)
          = Some (r_keywordText (snd (addNegativeKeywords e sh keywords) ! (length sh + i))))
   \<and> (distinct (map r_id (drop (length sh) (snd (addNegativeKeywords e sh keywords))))
        \<longleftrightarrow> distinct (map (\<lambda>i. (d_now (e i), take 9 (drop 2 (d_random (e i)))))
                          [0..<length keywords]))"
proof -
  let ?new = "map (\<lambda>(i, k). newRow (e i) k) (enumerate 0 keywords)"
  have s: "snd (addNegativeKeywords e sh keywords) = sh @ ?new"
    by (simp add: addNegativeKeywords_eq)
  have f: "fst (addNegativeKeywords e sh keywords)
     = \<lparr> added = length keywords, failed = 0, errors = [] \<rparr>"
    by (simp add: addNegativeKeywords_eq)
  have old: "\<forall>n < length sh. snd (addNegativeKeywords e sh keywords) ! n = sh ! n"
    unfolding s by (simp add: nth_append)
  have new: "\<forall>i < length keywords.
        r_id (snd (addNegativeKeywords e sh keywords) ! (length sh + i)) = newId (e i)
      \<and> r_addedDate (snd (addNegativeKeywords e sh keywords) ! (length sh + i)) = d_iso (e i)
      \<and> r_status (snd (addNegativeKeywords e sh keywords) ! (length sh + i)) = ''PENDING''
      \<and> r_message (snd (addNegativeKeywords e sh keywords) ! (length sh + i))
          = ''Waiting for processing''
      \<and> kw_text (keywords ! i)
          = Some (r_keywordText (snd (addNegativeKeywords e sh keywords) ! (length sh + i)))"
  proof (intro allI impI)
    fix i
    assume i: "i < length keywords"
    then have "validateKeyword (keywords ! i) = []" using valid by simp
    then obtain t where t: "kw_text (keywords ! i) = Some t"
      unfolding validateKeyword_accepts_iff by blast
    have row: "snd (addNegativeKeywords e sh keywords) ! (length sh + i) = newRow (e i) (keywords ! i)"
      unfolding s using i by (simp add: nth_append nth_enumerate_eq)
    show "r_id (snd (addNegativeKeywords e sh keywords) ! (length sh + i)) = newId (e i)
      \<and> r_addedDate (snd (addNegativeKeywords e sh keywords) ! (length sh + i)) = d_iso (e i)
      \<and> r_status (snd (addNegativeKeywords e sh keywords) ! (length sh + i)) = ''PENDING''
      \<and> r_message (snd (addNegativeKeywords e sh keywords) ! (length sh + i))
          = ''Waiting for processing''
      \<and> kw_text (keywords ! i)
          = Some (r_keywordText (snd (addNegativeKeywords e sh keywords) ! (length sh + i)))"
      unfolding row by (simp add: newRow_def t)
  qed
  have d: "distinct (map r_id (drop (length sh) (snd (addNegativeKeywords e sh keywords))))
        \<longleftrightarrow> distinct (map (\<lambda>i. (d_now (e i), take 9 (drop 2 (d_random (e i)))))
                          [0..<length keywords])"
    unfolding s by (simp only: drop_append drop_all [OF order_refl] diff_self_eq_0 drop_0
        append_Nil newRows_ids distinct_newIds)
  from s f old new d show ?thesis by (intro conjI)
qed

text \<open>With a clock that advances between the two requests, the collector's row stays in
  row 2 and the two new rows get different ids.\<close>

lemma addNegativeKeywords_frame_example:
  "validateKeyword validKeyword = []
   \<and> validateKeyword secondValidKeyword = []
   \<and> snd (addNegativeKeywords exampleEnv exampleSheet [validKeyword, secondValidKeyword]) ! 1
     = exampleSheet ! 1
   \<and> r_id (snd (addNegativeKeywords exampleEnv exampleSheet [validKeyword, secondValidKeyword]) ! 2)
     = ''new_1700000000000_4fzyo82mv''
   \<and> r_id (snd (addNegativeKeywords exampleEnv exampleSheet [validKeyword, secondValidKeyword]) ! 3)
     = ''new_1700000000001_4fzyo82mv''
   \<and> r_status (snd (addNegativeKeywords exampleEnv exampleSheet [validKeyword, secondValidKeyword]) ! 3)
     = ''PENDING''
   \<and> distinct (map r_id (drop 2
        (snd (addNegativeKeywords exampleEnv exampleSheet [validKeyword, secondValidKeyword]))))"
proof -
  let ?sh' = "snd (addNegativeKeywords exampleEnv exampleSheet [validKeyword, secondValidKeyword])"
  have v: "\<forall>k \<in> set [validKeyword, secondValidKeyword]. validateKeyword k = []"
    by (simp add: validateKeyword_validKeyword validateKeyword_secondValidKeyword)
  note t = addNegativeKeywords_frame [OF v, of exampleEnv exampleSheet]
  have len: "length exampleSheet = 2" by (simp add: exampleSheet_def)
  have id0: "newId (exampleEnv 0) = ''new_1700000000000_4fzyo82mv''"
    by (simp add: newId_def exampleEnv_def nat_to_string.simps digitChar_def)
  have id1: "newId (exampleEnv 1) = ''new_1700000000001_4fzyo82mv''"
    by (simp add: newId_def exampleEnv_def nat_to_string.simps digitChar_def)
  from t have old: "\<forall>n < length exampleSheet. ?sh' ! n = exampleSheet ! n" by blast
  then have c1: "?sh' ! 1 = exampleSheet ! 1" using len by simp
  from t have new: "\<forall>i < length [validKeyword, secondValidKeyword].
        r_id (?sh' ! (length exampleSheet + i)) = newId (exampleEnv i)
      \<and> r_addedDate (?sh' ! (length exampleSheet + i)) = d_iso (exampleEnv i)
      \<and> r_status (?sh' ! (length exampleSheet + i)) = ''PENDING''
      \<and> r_message (?sh' ! (length exampleSheet + i)) = ''Waiting for processing''
      \<and> kw_text ([validKeyword, secondValidKeyword] ! i)
          = Some (r_keywordText (?sh' ! (length exampleSheet + i)))" by blast
  from new [rule_format, of 0] have c2: "r_id (?sh' ! 2) = ''new_1700000000000_4fzyo82mv''"
    using len id0 by simp
  from new [rule_format, of 1] have c34: "r_id (?sh' ! 3) = ''new_1700000000001_4fzyo82mv''
      \<and> r_status (?sh' ! 3) = ''PENDING''"
    using len id1 by simp
  from t have "distinct (map r_id (drop (length exampleSheet) ?sh'))
        \<longleftrightarrow> distinct (map (\<lambda>i. (d_now (exampleEnv i), take 9 (drop 2 (d_random (exampleEnv i)))))
                          [0..<length [validKeyword, secondValidKeyword]])" by blast
  moreover have "distinct (map (\<lambda>i. (d_now (exampleEnv i), take 9 (drop 2 (d_random (exampleEnv i)))))
                          [0..<length [validKeyword, secondValidKeyword]])"
    by (simp add: exampleEnv_def upt_rec)
  ultimately have c5: "distinct (map r_id (drop 2 ?sh'))" using len by simp
  from validateKeyword_validKeyword validateKeyword_secondValidKeyword c1 c2 c34 c5
  show ?thesis by (intro conjI) simp_all
qed



section \<open>Batch submission\<close>





section \<open>Listing the pending requests\<close>

lemma pendingLoop_eq:
  "pendingLoop n data acc =
     acc @ map (\<lambda>(i, row). toPending (i + 2) row)
             (filter (\<lambda>(i, row). (r_status row = [] \<or> r_status row = ''PENDING'')
                                  \<and> (\<exists>rest. r_id row = ''new_'' @ rest))
                (enumerate n data))"
proof (induction data arbitrary: n acc)
  case Nil
  then show ?case by simp
next
  case (Cons row data)
  have c: "(r_id row \<noteq> [] \<and> startsWith (r_id row) ''new_'') \<longleftrightarrow> (\<exists>rest. r_id row = ''new_'' @ rest)"
    unfolding startsWith_iff by auto
  show ?case
    unfolding pendingLoop.simps Cons.IH enumerate_simps filter.simps
    using c by (auto simp del: startsWith.simps)
qed

lemma getPendingKeywords_eq:
  "getPendingKeywords sh =
     map (\<lambda>(i, row). toPending (i + 2) row)
       (filter (\<lambda>(i, row). (r_status row = [] \<or> r_status row = ''PENDING'')
                            \<and> (\<exists>rest. r_id row = ''new_'' @ rest))
          (enumerate 0 (tl sh)))"
proof (cases "length sh \<le> 1")
  case True
  then have "tl sh = []" by (cases sh) auto
  with True show ?thesis by (simp add: getPendingKeywords_def)
next
  case False
  then show ?thesis by (simp add: getPendingKeywords_def Let_def pendingLoop_eq)
qed

lemma rowIndex_toPending: "rowIndex (toPending n row) = n"
  by (simp add: toPending_def)

lemma getPendingKeywords_sorted: "sorted_wrt (<) (map rowIndex (getPendingKeywords sh))"
proof -
  let ?Q = "\<lambda>(i :: nat, row). (r_status row = [] \<or> r_status row = ''PENDING'')
                            \<and> (\<exists>rest. r_id row = ''new_'' @ rest)"
  let ?en = "enumerate 0 (tl sh)"
  have "sorted_wrt (<) (map fst ?en)"
    unfolding map_fst_enumerate by (rule sorted_wrt_upt)
  then have "sorted_wrt (\<lambda>p q. fst p < fst q) ?en"
    by (simp only: sorted_wrt_map)
  then have "sorted_wrt (\<lambda>p q. fst p < fst q) (filter ?Q ?en)"
    by (rule sorted_wrt_filter)
  then have "sorted_wrt (<) (map (\<lambda>p. fst p + 2) (filter ?Q ?en))"
    by (simp add: sorted_wrt_map)
  moreover have "map rowIndex (getPendingKeywords sh) = map (\<lambda>p. fst p + 2) (filter ?Q ?en)"
    unfolding getPendingKeywords_eq by (simp add: rowIndex_toPending case_prod_unfold comp_def)
  ultimately show ?thesis by simp
qed

lemma getPendingKeywords_distinct: "distinct (map rowIndex (getPendingKeywords sh))"
  using getPendingKeywords_sorted [of sh] strict_sorted_iff by blast

lemma getPendingKeywords_member:
  "k \<in> set (getPendingKeywords sh) \<longleftrightarrow>
     2 \<le> rowIndex k \<and> rowIndex k \<le> length sh
     \<and> k = toPending (rowIndex k) (sh ! (rowIndex k - 1))
     \<and> (r_status (sh ! (rowIndex k - 1)) = [] \<or> r_status (sh ! (rowIndex k - 1)) = ''PENDING'')
     \<and> (\<exists>rest. r_id (sh ! (rowIndex k - 1)) = ''new_'' @ rest)"
proof -
  let ?Q = "\<lambda>row. (r_status row = [] \<or> r_status row = ''PENDING'') \<and> (\<exists>rest. r_id row = ''new_'' @ rest)"
  have tl_nth: "i < length (tl sh) \<Longrightarrow> tl sh ! i = sh ! (i + 1)" for i
    by (cases sh) auto
  have "k \<in> set (getPendingKeywords sh) \<longleftrightarrow>
        (\<exists>i. i < length (tl sh) \<and> ?Q (tl sh ! i) \<and> k = toPending (i + 2) (tl sh ! i))"
    unfolding getPendingKeywords_eq by (auto simp: in_set_enumerate_eq image_iff)
  also have "\<dots> \<longleftrightarrow> (\<exists>i. i + 2 \<le> length sh \<and> ?Q (sh ! (i + 1)) \<and> k = toPending (i + 2) (sh ! (i + 1)))"
  proof -
    have "i < length (tl sh) \<longleftrightarrow> i + 2 \<le> length sh" for i by (cases sh) auto
    then show ?thesis using tl_nth by auto
  qed
  also have "\<dots> \<longleftrightarrow> (2 \<le> rowIndex k \<and> rowIndex k \<le> length sh
     \<and> k = toPending (rowIndex k) (sh ! (rowIndex k - 1)) \<and> ?Q (sh ! (rowIndex k - 1)))"
  proof
    assume "\<exists>i. i + 2 \<le> length sh \<and> ?Q (sh ! (i + 1)) \<and> k = toPending (i + 2) (sh ! (i + 1))"
    then obtain i where i: "i + 2 \<le> length sh" "?Q (sh ! (i + 1))" "k = toPending (i + 2) (sh ! (i + 1))"
      by blast
    then have "rowIndex k = i + 2" by (simp add: rowIndex_toPending)
    with i show "2 \<le> rowIndex k \<and> rowIndex k \<le> length sh
     \<and> k = toPending (rowIndex k) (sh ! (rowIndex k - 1)) \<and> ?Q (sh ! (rowIndex k - 1))"
      by simp
  next
    assume a: "2 \<le> rowIndex k \<and> rowIndex k \<le> length sh
     \<and> k = toPending (rowIndex k) (sh ! (rowIndex k - 1)) \<and> ?Q (sh ! (rowIndex k - 1))"
    then obtain i where i: "rowIndex k = i + 2" by (metis le_add_diff_inverse2)
    with a have "i + 2 \<le> length sh \<and> ?Q (sh ! (i + 1)) \<and> k = toPending (i + 2) (sh ! (i + 1))"
      by simp
    then show "\<exists>i. i + 2 \<le> length sh \<and> ?Q (sh ! (i + 1)) \<and> k = toPending (i + 2) (sh ! (i + 1))"
      by blast
  qed
  finally show ?thesis by simp
qed

text \<open>
  Claim C3 as stated (every row with status PENDING is returned, regardless of its id
  format) fails on a ledger whose only data row is PENDING with the id \<open>kw_7\<close>: nothing
  is returned.
\<close>

theorem pending_regardless_of_id_counterexample:
  "r_status (foreignIdSheet ! 1) = ''PENDING''
   \<and> r_id (foreignIdSheet ! 1) = ''kw_7''
   \<and> getPendingKeywords foreignIdSheet = []"
  by (simp add: foreignIdSheet_def exampleSheetRow_def getPendingKeywords_def)

text \<open>
  Claim C3, amended.  \<open>getPendingKeywords\<close> returns exactly the data rows whose status
  is PENDING or empty and whose id starts with \<open>new_\<close>: every such row is included, no
  other row is, each entry carries its row's number in the sheet and its row's fields,
  and the entries are in ledger order (their row numbers increase strictly).
\<close>

theorem getPendingKeywords_exact:
  "getPendingKeywords sh =
     map (\<lambda>(i, row). toPending (i + 2) row)
       (filter (\<lambda>(i, row). (r_status row = [] \<or> r_status row = ''PENDING'')
                            \<and> (\<exists>rest. r_id row = ''new_'' @ rest))
          (enumerate 0 (tl sh)))
   \<and> sorted_wrt (<) (map rowIndex (getPendingKeywords sh))
   \<and> (\<forall>k. k \<in> set (getPendingKeywords sh) \<longleftrightarrow>
          2 \<le> rowIndex k \<and> rowIndex k \<le> length sh
          \<and> k = toPending (rowIndex k) (sh ! (rowIndex k - 1))
          \<and> (r_status (sh ! (rowIndex k - 1)) = [] \<or> r_status (sh ! (rowIndex k - 1)) = ''PENDING'')
          \<and> (\<exists>rest. r_id (sh ! (rowIndex k - 1)) = ''new_'' @ rest))"
  using getPendingKeywords_eq [of sh] getPendingKeywords_sorted [of sh]
    getPendingKeywords_member [of _ sh]
  by (intro conjI allI)

text \<open>In a ledger with an ACTIVE row of the collector, a PENDING row and a row without
  status, both with ids that start with \<open>new_\<close>, rows 3 and 4 are returned.\<close>

theorem getPendingKeywords_exact_witness:
  "r_status (queueSheet ! 1) = ''ACTIVE''
   \<and> r_status (queueSheet ! 2) = ''PENDING''
   \<and> r_id (queueSheet ! 2) = ''new_'' @ ''1700000000000_4fzyo82mv''
   \<and> r_status (queueSheet ! 3) = []
   \<and> toPending 3 (queueSheet ! 2) \<in> set (getPendingKeywords queueSheet)
   \<and> map rowIndex (getPendingKeywords queueSheet) = [3, 4]"
proof -
  note t = getPendingKeywords_exact [of queueSheet]
  have rows: "r_status (queueSheet ! 1) = ''ACTIVE''" "r_status (queueSheet ! 2) = ''PENDING''"
    "r_id (queueSheet ! 2) = ''new_'' @ ''1700000000000_4fzyo82mv''" "r_status (queueSheet ! 3) = []"
    by (simp_all add: queueSheet_def exampleSheetRow_def)
  have len: "length queueSheet = 4" by (simp add: queueSheet_def)
  let ?k = "toPending 3 (queueSheet ! 2)"
  have ri: "rowIndex ?k = 3" by (simp add: rowIndex_toPending)
  have ex: "\<exists>rest. r_id (queueSheet ! 2) = ''new_'' @ rest" using rows(3) by blast
  from t have "?k \<in> set (getPendingKeywords queueSheet) \<longleftrightarrow>
          2 \<le> rowIndex ?k \<and> rowIndex ?k \<le> length queueSheet
          \<and> ?k = toPending (rowIndex ?k) (queueSheet ! (rowIndex ?k - 1))
          \<and> (r_status (queueSheet ! (rowIndex ?k - 1)) = [] \<or> r_status (queueSheet ! (rowIndex ?k - 1)) = ''PENDING'')
          \<and> (\<exists>rest. r_id (queueSheet ! (rowIndex ?k - 1)) = ''new_'' @ rest)"
    by blast
  then have m: "?k \<in> set (getPendingKeywords queueSheet)"
    unfolding ri len using rows(2) ex by simp
  have l: "map rowIndex (getPendingKeywords queueSheet) = [3, 4]"
    by (simp add: queueSheet_def exampleSheetRow_def getPendingKeywords_def toPending_def)
  from rows m l show ?thesis by (intro conjI)
qed

section \<open>The worker's run\<close>

lemma updateKeywordStatus_in_range:
  "1 \<le> n \<Longrightarrow> n \<le> length sh \<Longrightarrow>
     updateKeywordStatus sh n status message now
       = sh [n - 1 := (sh ! (n - 1))
               \<lparr> r_status := status, r_message := message, r_processedDate := now \<rparr>]"
  by (simp add: updateKeywordStatus_def)

lemma written_cases:
  "written r = Some (status, message) \<longleftrightarrow>
     r = Inr (Success message) \<and> status = ''ACTIVE''
   \<or> r = Inr (Failure message) \<and> status = ''FAILED''
   \<or> r = Inl (Shows message) \<and> status = ''FAILED''"
  by (cases r rule: written.cases) auto

lemma written_status:
  "written r = Some (status, message) \<Longrightarrow> status = ''ACTIVE'' \<or> status = ''FAILED''"
  unfolding written_cases by blast

lemma processKeyword_written:
  assumes "written (addNegativeKeywordToGoogleAds ads k) = Some (status, message)"
  shows "\<exists>st'. processKeyword ads now k st = Inr st'
     \<and> rs_sheet st' = updateKeywordStatus (rs_sheet st) (rowIndex k) status message now"
  using assms unfolding written_cases
  by (elim disjE conjE) (simp_all add: processKeyword_def)

lemma processKeyword_Inr:
  assumes "processKeyword ads now k st = Inr st'"
  shows "\<exists>status message. written (addNegativeKeywordToGoogleAds ads k) = Some (status, message)
     \<and> rs_sheet st' = updateKeywordStatus (rs_sheet st) (rowIndex k) status message now"
proof (cases "addNegativeKeywordToGoogleAds ads k" rule: written.cases)
  case (1 message)
  with assms show ?thesis by (auto simp: processKeyword_def)
next
  case (2 err)
  with assms show ?thesis by (auto simp: processKeyword_def)
next
  case (3 t)
  with assms show ?thesis by (auto simp: processKeyword_def)
next
  case (4 v)
  with assms show ?thesis by (simp add: processKeyword_def)
qed

lemma processKeyword_raises:
  "written (addNegativeKeywordToGoogleAds ads k) = None \<Longrightarrow>
     \<exists>e. processKeyword ads now k st = Inl e"
  by (cases "addNegativeKeywordToGoogleAds ads k" rule: written.cases)
     (simp_all add: processKeyword_def)

lemma processKeyword_length:
  assumes "processKeyword ads now k st = Inr st'"
    and "1 \<le> rowIndex k" "rowIndex k \<le> length (rs_sheet st)"
  shows "length (rs_sheet st') = length (rs_sheet st)"
proof -
  obtain status message where
    "rs_sheet st' = updateKeywordStatus (rs_sheet st) (rowIndex k) status message now"
    using processKeyword_Inr [OF assms(1)] by blast
  then show ?thesis
    unfolding updateKeywordStatus_in_range [OF assms(2,3)] by simp
qed

lemma processKeyword_other:
  assumes "processKeyword ads now k st = Inr st'"
    and "1 \<le> rowIndex k" "rowIndex k \<le> length (rs_sheet st)" "n \<noteq> rowIndex k - 1"
  shows "rs_sheet st' ! n = rs_sheet st ! n"
proof -
  obtain status message where
    "rs_sheet st' = updateKeywordStatus (rs_sheet st) (rowIndex k) status message now"
    using processKeyword_Inr [OF assms(1)] by blast
  then show ?thesis
    unfolding updateKeywordStatus_in_range [OF assms(2,3)] using assms(4) by simp
qed

lemma processKeyword_own:
  assumes "written (addNegativeKeywordToGoogleAds ads k) = Some (status, message)"
    and "1 \<le> rowIndex k" "rowIndex k \<le> length (rs_sheet st)"
  shows "\<exists>st'. processKeyword ads now k st = Inr st'
     \<and> rs_sheet st' ! (rowIndex k - 1)
         = (rs_sheet st ! (rowIndex k - 1))
             \<lparr> r_status := status, r_message := message, r_processedDate := now \<rparr>"
proof -
  obtain st' where a: "processKeyword ads now k st = Inr st'"
    and b: "rs_sheet st' = updateKeywordStatus (rs_sheet st) (rowIndex k) status message now"
    using processKeyword_written [OF assms(1)] by blast
  have "rs_sheet st' ! (rowIndex k - 1)
         = (rs_sheet st ! (rowIndex k - 1))
             \<lparr> r_status := status, r_message := message, r_processedDate := now \<rparr>"
    unfolding b updateKeywordStatus_in_range [OF assms(2,3)] using assms(2,3) by simp
  with a show ?thesis by blast
qed

lemma processLoop_length:
  "\<forall>k \<in> set ks. 1 \<le> rowIndex k \<and> rowIndex k \<le> length (rs_sheet st) \<Longrightarrow>
     length (rs_sheet (fst (processLoop ads clock i ks st))) = length (rs_sheet st)"
proof (induction ks arbitrary: i st)
  case Nil
  then show ?case by simp
next
  case (Cons k ks)
  show ?case
  proof (cases "processKeyword (ads i) (clock i) k st")
    case (Inl e)
    then show ?thesis by simp
  next
    case (Inr st1)
    have l: "length (rs_sheet st1) = length (rs_sheet st)"
      by (rule processKeyword_length [OF Inr]) (use Cons.prems in simp_all)
    have "length (rs_sheet (fst (processLoop ads clock (Suc i) ks st1))) = length (rs_sheet st1)"
      by (rule Cons.IH) (use Cons.prems l in simp)
    with l Inr show ?thesis by simp
  qed
qed

lemma processLoop_untouched:
  "\<forall>k \<in> set ks. 1 \<le> rowIndex k \<and> rowIndex k \<le> length (rs_sheet st) \<Longrightarrow>
   \<forall>k \<in> set ks. rowIndex k - 1 \<noteq> n \<Longrightarrow>
     rs_sheet (fst (processLoop ads clock i ks st)) ! n = rs_sheet st ! n"
proof (induction ks arbitrary: i st)
  case Nil
  then show ?case by simp
next
  case (Cons k ks)
  show ?case
  proof (cases "processKeyword (ads i) (clock i) k st")
    case (Inl e)
    then show ?thesis by simp
  next
    case (Inr st1)
    have l: "length (rs_sheet st1) = length (rs_sheet st)"
      by (rule processKeyword_length [OF Inr]) (use Cons.prems in simp_all)
    have "rs_sheet (fst (processLoop ads clock (Suc i) ks st1)) ! n = rs_sheet st1 ! n"
      by (rule Cons.IH) (use Cons.prems l in simp_all)
    also have "\<dots> = rs_sheet st ! n"
      by (rule processKeyword_other [OF Inr]) (use Cons.prems in auto)
    finally show ?thesis using Inr by simp
  qed
qed

lemma processLoop_touched:
  "distinct (map rowIndex ks) \<Longrightarrow>
   \<forall>k \<in> set ks. 1 \<le> rowIndex k \<and> rowIndex k \<le> length (rs_sheet st) \<Longrightarrow>
   j < length ks \<Longrightarrow>
   \<forall>m \<le> j. written (addNegativeKeywordToGoogleAds (ads (i + m)) (ks ! m)) \<noteq> None \<Longrightarrow>
     \<exists>status message.
       written (addNegativeKeywordToGoogleAds (ads (i + j)) (ks ! j)) = Some (status, message)
     \<and> rs_sheet (fst (processLoop ads clock i ks st)) ! (rowIndex (ks ! j) - 1)
         = (rs_sheet st ! (rowIndex (ks ! j) - 1))
             \<lparr> r_status := status, r_message := message, r_processedDate := clock (i + j) \<rparr>"
proof (induction ks arbitrary: i st j)
  case Nil
  from Nil.prems(3) have False by simp
  then show ?case ..
next
  case (Cons k ks)
  have rk: "1 \<le> rowIndex k" "rowIndex k \<le> length (rs_sheet st)"
    using Cons.prems(2) by simp_all
  have "written (addNegativeKeywordToGoogleAds (ads (i + 0)) ((k # ks) ! 0)) \<noteq> None"
    using Cons.prems(4) by blast
  then have "written (addNegativeKeywordToGoogleAds (ads i) k) \<noteq> None"
    by (simp only: Nat.add_0_right nth_Cons_0 simp_thms)
  then obtain status0 message0 where
    w0: "written (addNegativeKeywordToGoogleAds (ads i) k) = Some (status0, message0)"
    unfolding not_None_eq by (metis surj_pair)
  obtain st1 where st1: "processKeyword (ads i) (clock i) k st = Inr st1"
    and own1: "rs_sheet st1 ! (rowIndex k - 1)
         = (rs_sheet st ! (rowIndex k - 1))
             \<lparr> r_status := status0, r_message := message0, r_processedDate := clock i \<rparr>"
    using processKeyword_own [OF w0 rk, of "clock i"] by blast
  have loop: "processLoop ads clock i (k # ks) st = processLoop ads clock (Suc i) ks st1"
    unfolding processLoop.simps st1 by simp
  have l: "length (rs_sheet st1) = length (rs_sheet st)"
    by (rule processKeyword_length [OF st1 rk])
  have range1: "\<forall>k' \<in> set ks. 1 \<le> rowIndex k' \<and> rowIndex k' \<le> length (rs_sheet st1)"
    using Cons.prems(2) l by simp
  have dk: "distinct (rowIndex k # map rowIndex ks)"
    using Cons.prems(1) by (simp only: list.map)
  have apart: "rowIndex k' - 1 \<noteq> rowIndex k - 1" if "k' \<in> set ks" for k'
  proof -
    have "rowIndex k \<notin> set (map rowIndex ks)"
      using dk unfolding distinct.simps by (rule conjunct1)
    moreover have "rowIndex k' \<in> set (map rowIndex ks)"
      using that by (simp only: set_map) (rule imageI)
    ultimately have "rowIndex k' \<noteq> rowIndex k" by metis
    moreover have "1 \<le> rowIndex k'" using Cons.prems(2) that by simp
    ultimately show ?thesis using rk(1) by arith
  qed
  show ?case
  proof (cases j)
    case 0
    have "rs_sheet (fst (processLoop ads clock (Suc i) ks st1)) ! (rowIndex k - 1)
          = rs_sheet st1 ! (rowIndex k - 1)"
      by (rule processLoop_untouched [OF range1]) (use apart in blast)
    then have own: "rs_sheet (fst (processLoop ads clock (Suc i) ks st1)) ! (rowIndex k - 1)
          = (rs_sheet st ! (rowIndex k - 1))
             \<lparr> r_status := status0, r_message := message0, r_processedDate := clock i \<rparr>"
      unfolding own1 .
    have "written (addNegativeKeywordToGoogleAds (ads (i + 0)) ((k # ks) ! 0))
            = Some (status0, message0)
     \<and> rs_sheet (fst (processLoop ads clock i (k # ks) st)) ! (rowIndex ((k # ks) ! 0) - 1)
         = (rs_sheet st ! (rowIndex ((k # ks) ! 0) - 1))
             \<lparr> r_status := status0, r_message := message0, r_processedDate := clock (i + 0) \<rparr>"
      unfolding loop nth_Cons_0 Nat.add_0_right using w0 own by (rule conjI)
    then show ?thesis unfolding 0 by (intro exI)
  next
    case (Suc j')
    then have j': "j' < length ks" using Cons.prems(3) by simp
    then have mem: "ks ! j' \<in> set ks" by simp
    have d: "distinct (map rowIndex ks)" using dk unfolding distinct.simps by (rule conjunct2)
    have pre: "\<forall>m \<le> j'. written (addNegativeKeywordToGoogleAds (ads (Suc i + m)) (ks ! m)) \<noteq> None"
    proof (intro allI impI)
      fix m
      assume "m \<le> j'"
      then have "Suc m \<le> j" unfolding Suc by simp
      then have "written (addNegativeKeywordToGoogleAds (ads (i + Suc m)) ((k # ks) ! Suc m)) \<noteq> None"
        using Cons.prems(4) by blast
      then show "written (addNegativeKeywordToGoogleAds (ads (Suc i + m)) (ks ! m)) \<noteq> None"
        by (simp only: nth_Cons_Suc add_Suc_right add_Suc simp_thms)
    qed
    obtain status message where
      w: "written (addNegativeKeywordToGoogleAds (ads (Suc i + j')) (ks ! j')) = Some (status, message)"
      and ih: "rs_sheet (fst (processLoop ads clock (Suc i) ks st1)) ! (rowIndex (ks ! j') - 1)
         = (rs_sheet st1 ! (rowIndex (ks ! j') - 1))
             \<lparr> r_status := status, r_message := message, r_processedDate := clock (Suc i + j') \<rparr>"
      using Cons.IH [OF d range1 j' pre] by blast
    have same: "rs_sheet st1 ! (rowIndex (ks ! j') - 1) = rs_sheet st ! (rowIndex (ks ! j') - 1)"
      by (rule processKeyword_other [OF st1 rk]) (rule apart [OF mem])
    have "written (addNegativeKeywordToGoogleAds (ads (i + Suc j')) ((k # ks) ! Suc j'))
            = Some (status, message)
     \<and> rs_sheet (fst (processLoop ads clock i (k # ks) st)) ! (rowIndex ((k # ks) ! Suc j') - 1)
         = (rs_sheet st ! (rowIndex ((k # ks) ! Suc j') - 1))
             \<lparr> r_status := status, r_message := message, r_processedDate := clock (i + Suc j') \<rparr>"
      unfolding loop nth_Cons_Suc add_Suc_right
      using w ih unfolding same add_Suc by (rule conjI)
    then show ?thesis unfolding Suc by (intro exI)
  qed
qed

lemma processLoop_completes:
  "\<forall>m < length ks. written (addNegativeKeywordToGoogleAds (ads (i + m)) (ks ! m)) \<noteq> None \<Longrightarrow>
     snd (processLoop ads clock i ks st) = None"
proof (induction ks arbitrary: i st)
  case Nil
  then show ?case by simp
next
  case (Cons k ks)
  have "written (addNegativeKeywordToGoogleAds (ads (i + 0)) ((k # ks) ! 0)) \<noteq> None"
    using Cons.prems by (simp only: length_Cons) blast
  then have "written (addNegativeKeywordToGoogleAds (ads i) k) \<noteq> None"
    by (simp only: Nat.add_0_right nth_Cons_0 simp_thms)
  then obtain status0 message0 where
    w0: "written (addNegativeKeywordToGoogleAds (ads i) k) = Some (status0, message0)"
    unfolding not_None_eq by (metis surj_pair)
  obtain st1 where st1: "processKeyword (ads i) (clock i) k st = Inr st1"
    using processKeyword_written [OF w0, of "clock i" st] by blast
  have loop: "processLoop ads clock i (k # ks) st = processLoop ads clock (Suc i) ks st1"
    unfolding processLoop.simps st1 by simp
  have pre: "\<forall>m < length ks. written (addNegativeKeywordToGoogleAds (ads (Suc i + m)) (ks ! m)) \<noteq> None"
  proof (intro allI impI)
    fix m
    assume "m < length ks"
    then have "Suc m < length (k # ks)" by simp
    then have "written (addNegativeKeywordToGoogleAds (ads (i + Suc m)) ((k # ks) ! Suc m)) \<noteq> None"
      using Cons.prems by blast
    then show "written (addNegativeKeywordToGoogleAds (ads (Suc i + m)) (ks ! m)) \<noteq> None"
      by (simp only: nth_Cons_Suc add_Suc_right add_Suc simp_thms)
  qed
  show ?case unfolding loop by (rule Cons.IH [OF pre])
qed

lemma getPendingKeywords_range:
  "\<forall>k \<in> set (getPendingKeywords sh). 1 \<le> rowIndex k \<and> rowIndex k \<le> length sh"
proof
  fix k
  assume "k \<in> set (getPendingKeywords sh)"
  then have "2 \<le> rowIndex k \<and> rowIndex k \<le> length sh"
    unfolding getPendingKeywords_member by (elim conjE) (intro conjI)
  then show "1 \<le> rowIndex k \<and> rowIndex k \<le> length sh" by simp
qed

lemma processPending_sheet:
  assumes "negativeKeywordsSheet ss = Some sh" and "getPendingKeywords sh \<noteq> []"
  shows "negativeKeywordsSheet (snd (processPendingNegativeKeywords ads clock ss))
     = Some (rs_sheet (fst (processLoop ads clock 0 (getPendingKeywords sh)
          \<lparr> rs_sheet = sh, successCount = 0, failureCount = 0, results = [] \<rparr>)))"
proof -
  let ?r = "processLoop ads clock 0 (getPendingKeywords sh)
          \<lparr> rs_sheet = sh, successCount = 0, failureCount = 0, results = [] \<rparr>"
  obtain st r where r: "?r = (st, r)" by (cases ?r)
  show ?thesis
    by (cases r) (simp_all add: processPendingNegativeKeywords_def Let_def assms r)
qed

lemma processPending_result:
  assumes "negativeKeywordsSheet ss = Some sh" and "getPendingKeywords sh \<noteq> []"
    and "snd (processLoop ads clock 0 (getPendingKeywords sh)
          \<lparr> rs_sheet = sh, successCount = 0, failureCount = 0, results = [] \<rparr>) = None"
  shows "\<exists>rs. fst (processPendingNegativeKeywords ads clock ss) = Inr (Some rs)"
proof -
  let ?r = "processLoop ads clock 0 (getPendingKeywords sh)
          \<lparr> rs_sheet = sh, successCount = 0, failureCount = 0, results = [] \<rparr>"
  obtain st where r: "?r = (st, None)" using assms(3) by (cases ?r) simp
  show ?thesis
    by (simp add: processPendingNegativeKeywords_def Let_def assms(1,2) r)
qed

lemma processPending_ledgerRow:
  assumes "negativeKeywordsSheet ss = Some sh" and "j < length (getPendingKeywords sh)"
    and "\<forall>i \<le> j. written (addNegativeKeywordToGoogleAds (ads i) (getPendingKeywords sh ! i)) \<noteq> None"
  shows "\<exists>status message.
       written (addNegativeKeywordToGoogleAds (ads j) (getPendingKeywords sh ! j))
         = Some (status, message)
     \<and> ledgerRow (snd (processPendingNegativeKeywords ads clock ss))
           (rowIndex (getPendingKeywords sh ! j))
         = Some ((sh ! (rowIndex (getPendingKeywords sh ! j) - 1))
             \<lparr> r_status := status, r_message := message, r_processedDate := clock j \<rparr>)"
proof -
  let ?ks = "getPendingKeywords sh"
  let ?k = "?ks ! j"
  let ?init = "\<lparr> rs_sheet = sh, successCount = 0, failureCount = 0, results = [] \<rparr>"
  let ?sh' = "rs_sheet (fst (processLoop ads clock 0 ?ks ?init))"
  have ne: "?ks \<noteq> []" using assms(2) by auto
  have r: "\<forall>k \<in> set ?ks. 1 \<le> rowIndex k \<and> rowIndex k \<le> length (rs_sheet ?init)"
    using getPendingKeywords_range [of sh] by simp
  have pre: "\<forall>m \<le> j. written (addNegativeKeywordToGoogleAds (ads (0 + m)) (?ks ! m)) \<noteq> None"
    using assms(3) by (simp only: add_0)
  have a: "negativeKeywordsSheet (snd (processPendingNegativeKeywords ads clock ss)) = Some ?sh'"
    by (rule processPending_sheet [OF assms(1) ne])
  have b: "length ?sh' = length sh"
    using processLoop_length [OF r, of ads clock 0] by simp
  obtain status message where
    w: "written (addNegativeKeywordToGoogleAds (ads (0 + j)) ?k) = Some (status, message)"
    and c0: "?sh' ! (rowIndex ?k - 1)
        = (rs_sheet ?init ! (rowIndex ?k - 1))
           \<lparr> r_status := status, r_message := message, r_processedDate := clock (0 + j) \<rparr>"
    using processLoop_touched [OF getPendingKeywords_distinct r assms(2) pre, of clock] by blast
  have c: "?sh' ! (rowIndex ?k - 1)
        = (sh ! (rowIndex ?k - 1))
           \<lparr> r_status := status, r_message := message, r_processedDate := clock j \<rparr>"
    using c0 by (simp only: add_0 run_state.simps)
  have "?k \<in> set ?ks" using assms(2) by (rule nth_mem)
  then have "1 \<le> rowIndex ?k \<and> rowIndex ?k \<le> length sh"
    using getPendingKeywords_range [of sh] by blast
  then have rg: "1 \<le> rowIndex ?k \<and> rowIndex ?k \<le> length ?sh'" using b by (simp only:)
  have "ledgerRow (snd (processPendingNegativeKeywords ads clock ss)) (rowIndex ?k)
         = Some ((sh ! (rowIndex ?k - 1))
             \<lparr> r_status := status, r_message := message, r_processedDate := clock j \<rparr>)"
    unfolding ledgerRow_def a option.case if_P [OF rg] c ..
  moreover have "written (addNegativeKeywordToGoogleAds (ads j) ?k) = Some (status, message)"
    using w by (simp only: add_0)
  ultimately show ?thesis by blast
qed

lemma dispatch_throws:
  assumes "(lvl, tag, kind, ident) \<in> set
      [(''CAMPAIGN'', ''Campaign error: '', CAMPAIGN, p_campaignId k),
       (''AD_GROUP'', ''Ad group error: '', AD_GROUP, p_adGroupId k),
       (''SHARED_LIST'', ''Shared list error: '', SHARED_LIST, p_sharedListId k)]"
    and "p_level k = lvl" and "ident \<noteq> []"
    and "ads kind ident (p_keywordText k) (p_matchType k) = Throws e"
  shows "addNegativeKeywordToGoogleAds ads k =
     (case e of
        Shows t \<Rightarrow> Inr (Failure (tag @ t))
      | Raises (Shows t) \<Rightarrow> Inr (Failure t)
      | Raises (Raises v) \<Rightarrow> Inl v)"
proof -
  from assms(1) consider
      (c) "lvl = ''CAMPAIGN''" "tag = ''Campaign error: ''" "kind = CAMPAIGN" "ident = p_campaignId k"
    | (g) "lvl = ''AD_GROUP''" "tag = ''Ad group error: ''" "kind = AD_GROUP" "ident = p_adGroupId k"
    | (l) "lvl = ''SHARED_LIST''" "tag = ''Shared list error: ''" "kind = SHARED_LIST"
          "ident = p_sharedListId k"
    by auto
  then show ?thesis
  proof cases
    case c
    with assms(2-4) show ?thesis
      by (simp add: addNegativeKeywordToGoogleAds_def addCampaignNegativeKeyword_def
          split: thrown.splits)
  next
    case g
    with assms(2-4) show ?thesis
      by (simp add: addNegativeKeywordToGoogleAds_def addAdGroupNegativeKeyword_def
          split: thrown.splits)
  next
    case l
    with assms(2-4) show ?thesis
      by (simp add: addNegativeKeywordToGoogleAds_def addSharedListNegativeKeyword_def
          split: thrown.splits)
  qed
qed

lemma written_throws:
  assumes "(lvl, tag, kind, ident) \<in> set
      [(''CAMPAIGN'', ''Campaign error: '', CAMPAIGN, p_campaignId k),
       (''AD_GROUP'', ''Ad group error: '', AD_GROUP, p_adGroupId k),
       (''SHARED_LIST'', ''Shared list error: '', SHARED_LIST, p_sharedListId k)]"
    and "p_level k = lvl" and "ident \<noteq> []"
    and "ads kind ident (p_keywordText k) (p_matchType k) = Throws e"
    and "written (addNegativeKeywordToGoogleAds ads k) = Some (status, message)"
  shows "status = ''FAILED''
     \<and> (\<forall>t. e = Shows t \<longrightarrow> message = tag @ t)
     \<and> (\<forall>t. e = Raises (Shows t) \<longrightarrow> message = t)
     \<and> (\<forall>t. e = Raises (Raises (Shows t)) \<longrightarrow> message = t)"
proof -
  have d: "addNegativeKeywordToGoogleAds ads k =
     (case e of
        Shows t \<Rightarrow> Inr (Failure (tag @ t))
      | Raises (Shows t) \<Rightarrow> Inr (Failure t)
      | Raises (Raises v) \<Rightarrow> Inl v)"
    using assms(1-4) by (rule dispatch_throws)
  show ?thesis
    using assms(5) unfolding d by (auto simp: written_cases split: thrown.splits)
qed

lemma queue_pending:
  "getPendingKeywords queueSheet = [toPending 3 (queueSheet ! 2), toPending 4 (queueSheet ! 3)]"
proof -
  have n3: "Suc (Suc (Suc 0)) = 3" and n4: "Suc (Suc (Suc (Suc 0))) = 4" by simp_all
  show ?thesis
    by (simp add: queueSheet_def exampleSheetRow_def getPendingKeywords_def n3 n4)
qed

lemma queue_first:
  "p_level (toPending 3 (queueSheet ! 2)) = ''CAMPAIGN''
   \<and> p_campaignId (toPending 3 (queueSheet ! 2)) = ''123''
   \<and> p_keywordText (toPending 3 (queueSheet ! 2)) = ''free shipping''
   \<and> p_matchType (toPending 3 (queueSheet ! 2)) = ''EXACT''
   \<and> rowIndex (toPending 3 (queueSheet ! 2)) = 3"
  by (simp add: queueSheet_def exampleSheetRow_def toPending_def)

lemma queue_second:
  "p_level (toPending 4 (queueSheet ! 3)) = ''CAMPAIGN''
   \<and> p_campaignId (toPending 4 (queueSheet ! 3)) = ''456''
   \<and> rowIndex (toPending 4 (queueSheet ! 3)) = 4"
  by (simp add: queueSheet_def exampleSheetRow_def toPending_def)

lemma queue_first_throws:
  assumes "ads CAMPAIGN ''123'' ''free shipping'' ''EXACT'' = Throws e"
  shows "addNegativeKeywordToGoogleAds ads (toPending 3 (queueSheet ! 2)) =
     (case e of
        Shows t \<Rightarrow> Inr (Failure (''Campaign error: '' @ t))
      | Raises (Shows t) \<Rightarrow> Inr (Failure t)
      | Raises (Raises v) \<Rightarrow> Inl v)"
proof (rule dispatch_throws [where lvl = "''CAMPAIGN''" and kind = CAMPAIGN and ident = "''123''"])
  show "(''CAMPAIGN'', ''Campaign error: '', CAMPAIGN, ''123'')
      \<in> set [(''CAMPAIGN'', ''Campaign error: '', CAMPAIGN, p_campaignId (toPending 3 (queueSheet ! 2))),
       (''AD_GROUP'', ''Ad group error: '', AD_GROUP, p_adGroupId (toPending 3 (queueSheet ! 2))),
       (''SHARED_LIST'', ''Shared list error: '', SHARED_LIST,
          p_sharedListId (toPending 3 (queueSheet ! 2)))]"
    by (simp add: queue_first)
  show "p_level (toPending 3 (queueSheet ! 2)) = ''CAMPAIGN''" by (simp add: queue_first)
  show "''123'' \<noteq> []" by simp
  show "ads CAMPAIGN ''123'' (p_keywordText (toPending 3 (queueSheet ! 2)))
          (p_matchType (toPending 3 (queueSheet ! 2))) = Throws e"
    using assms by (simp add: queue_first)
qed

lemma queue_second_succeeds:
  assumes "ads CAMPAIGN ''456'' ''cheap'' ''EXACT'' = Succeeded name"
  shows "addNegativeKeywordToGoogleAds ads (toPending 4 (queueSheet ! 3))
     = Inr (Success (''Added to campaign '' @ dquote @ name @ dquote))"
  using assms
  by (simp add: queueSheet_def exampleSheetRow_def toPending_def
      addNegativeKeywordToGoogleAds_def addCampaignNegativeKeyword_def)

text \<open>
  Claim C6 as stated (a request whose dispatch throws is marked FAILED with the exception
  text as its message) fails on a pending campaign-level request for which the account
  throws an \<open>Error\<close> with the text \<open>Error: boom\<close>: the exception is caught in
  \<open>addCampaignNegativeKeyword\<close>, and the row's message is
  \<open>Campaign error: Error: boom\<close>.
\<close>

theorem exception_text_counterexample:
  "throwingAds 0 CAMPAIGN ''123'' ''free shipping'' ''EXACT'' = Throws (Shows ''Error: boom'')
   \<and> toStringOf (Shows ''Error: boom'') = Inr ''Error: boom''
   \<and> map_option r_status
        (ledgerRow (snd (processPendingNegativeKeywords throwingAds exampleClock queueSpreadsheet)) 3)
      = Some ''FAILED''
   \<and> map_option r_message
        (ledgerRow (snd (processPendingNegativeKeywords throwingAds exampleClock queueSpreadsheet)) 3)
      = Some ''Campaign error: Error: boom''"
proof -
  let ?k = "toPending 3 (queueSheet ! 2)"
  let ?after = "ledgerRow (snd (processPendingNegativeKeywords throwingAds exampleClock queueSpreadsheet)) 3"
  have th: "throwingAds 0 CAMPAIGN ''123'' ''free shipping'' ''EXACT'' = Throws (Shows ''Error: boom'')"
    by (simp add: throwingAds_def)
  have sh: "negativeKeywordsSheet queueSpreadsheet = Some queueSheet"
    by (simp add: queueSpreadsheet_def)
  have j: "0 < length (getPendingKeywords queueSheet)" by (simp add: queue_pending)
  have k: "getPendingKeywords queueSheet ! 0 = ?k" by (simp add: queue_pending)
  have res: "addNegativeKeywordToGoogleAds (throwingAds 0) ?k
      = Inr (Failure (''Campaign error: '' @ ''Error: boom''))"
    using queue_first_throws [where ads = "throwingAds 0", OF th] by simp
  have pre: "\<forall>i \<le> 0. written (addNegativeKeywordToGoogleAds (throwingAds i)
        (getPendingKeywords queueSheet ! i)) \<noteq> None"
    by (simp add: k res)
  have ri: "rowIndex ?k = 3" by (simp add: queue_first)
  obtain status message where
    w: "written (addNegativeKeywordToGoogleAds (throwingAds 0) ?k) = Some (status, message)"
    and row: "?after = Some ((queueSheet ! (3 - 1))
           \<lparr> r_status := status, r_message := message, r_processedDate := exampleClock 0 \<rparr>)"
    using processPending_ledgerRow [OF sh j pre, of exampleClock] unfolding k ri by blast
  from w have sm: "status = ''FAILED''" "message = ''Campaign error: Error: boom''"
    unfolding res by simp_all
  have "map_option r_status ?after = Some ''FAILED''
     \<and> map_option r_message ?after = Some ''Campaign error: Error: boom''"
    unfolding row sm by simp
  with th show ?thesis by (intro conjI) simp_all
qed

text \<open>
  Claim C6, amended.  An exception thrown by the external account while a pending request
  is dispatched is caught by the innermost of three handlers that can take its text with
  \<open>toString()\<close>: the one of the level function, the one of
  \<open>addNegativeKeywordToGoogleAds\<close>, the one of the loop.  The request is marked FAILED,
  and its message is the exception text after the tag of its level (\<open>Campaign error: \<close>,
  \<open>Ad group error: \<close> or \<open>Shared list error: \<close>) when the level function's handler
  takes it, and the bare text of the exception raised by the failed \<open>toString()\<close> when
  one of the two outer handlers does.  The loop goes on: whatever happened to the requests
  before it, as long as none of their exceptions escaped the three handlers, a pending
  request gets into its row the status ACTIVE or FAILED and the message of its own
  dispatch and the time stamp read for it; and when no exception of the run escapes them,
  the run returns its results.  An exception whose text not even the loop's handler can
  take is not covered.
\<close>

theorem worker_isolates_failures:
  assumes "negativeKeywordsSheet ss = Some sh"
    and "j < length (getPendingKeywords sh)"
    and "k = getPendingKeywords sh ! j"
    and "\<forall>i \<le> j. written (addNegativeKeywordToGoogleAds (ads i) (getPendingKeywords sh ! i)) \<noteq> None"
  shows "(\<exists>status message.
        written (addNegativeKeywordToGoogleAds (ads j) k) = Some (status, message)
      \<and> (status = ''ACTIVE'' \<or> status = ''FAILED'')
      \<and> ledgerRow (snd (processPendingNegativeKeywords ads clock ss)) (rowIndex k)
          = Some ((sh ! (rowIndex k - 1))
              \<lparr> r_status := status, r_message := message, r_processedDate := clock j \<rparr>)
      \<and> (\<forall>(lvl, tag, kind, ident) \<in> set
             [(''CAMPAIGN'', ''Campaign error: '', CAMPAIGN, p_campaignId k),
              (''AD_GROUP'', ''Ad group error: '', AD_GROUP, p_adGroupId k),
              (''SHARED_LIST'', ''Shared list error: '', SHARED_LIST, p_sharedListId k)].
            \<forall>e. p_level k = lvl \<and> ident \<noteq> []
                 \<and> ads j kind ident (p_keywordText k) (p_matchType k) = Throws e
              \<longrightarrow> status = ''FAILED''
                \<and> (\<forall>t. e = Shows t \<longrightarrow> message = tag @ t)
                \<and> (\<forall>t. e = Raises (Shows t) \<longrightarrow> message = t)
                \<and> (\<forall>t. e = Raises (Raises (Shows t)) \<longrightarrow> message = t)))
   \<and> ((\<forall>i < length (getPendingKeywords sh).
          written (addNegativeKeywordToGoogleAds (ads i) (getPendingKeywords sh ! i)) \<noteq> None)
        \<longrightarrow> (\<exists>rs. fst (processPendingNegativeKeywords ads clock ss) = Inr (Some rs)))"
proof -
  let ?disp = "addNegativeKeywordToGoogleAds (ads j) k"
  obtain status message where w: "written ?disp = Some (status, message)"
    and row: "ledgerRow (snd (processPendingNegativeKeywords ads clock ss)) (rowIndex k)
          = Some ((sh ! (rowIndex k - 1))
              \<lparr> r_status := status, r_message := message, r_processedDate := clock j \<rparr>)"
    using processPending_ledgerRow [OF assms(1,2,4), of clock] unfolding assms(3) by blast
  have st: "status = ''ACTIVE'' \<or> status = ''FAILED''"
    using w by (rule written_status)
  have texts: "\<forall>(lvl, tag, kind, ident) \<in> set
             [(''CAMPAIGN'', ''Campaign error: '', CAMPAIGN, p_campaignId k),
              (''AD_GROUP'', ''Ad group error: '', AD_GROUP, p_adGroupId k),
              (''SHARED_LIST'', ''Shared list error: '', SHARED_LIST, p_sharedListId k)].
            \<forall>e. p_level k = lvl \<and> ident \<noteq> []
                 \<and> ads j kind ident (p_keywordText k) (p_matchType k) = Throws e
              \<longrightarrow> status = ''FAILED''
                \<and> (\<forall>t. e = Shows t \<longrightarrow> message = tag @ t)
                \<and> (\<forall>t. e = Raises (Shows t) \<longrightarrow> message = t)
                \<and> (\<forall>t. e = Raises (Raises (Shows t)) \<longrightarrow> message = t)"
  proof (intro ballI)
    fix x
    assume x: "x \<in> set
             [(''CAMPAIGN'', ''Campaign error: '', CAMPAIGN, p_campaignId k),
              (''AD_GROUP'', ''Ad group error: '', AD_GROUP, p_adGroupId k),
              (''SHARED_LIST'', ''Shared list error: '', SHARED_LIST, p_sharedListId k)]"
    obtain lvl tag kind ident where x4: "x = (lvl, tag, kind, ident)" by (cases x)
    have "\<forall>e. p_level k = lvl \<and> ident \<noteq> []
                 \<and> ads j kind ident (p_keywordText k) (p_matchType k) = Throws e
              \<longrightarrow> status = ''FAILED''
                \<and> (\<forall>t. e = Shows t \<longrightarrow> message = tag @ t)
                \<and> (\<forall>t. e = Raises (Shows t) \<longrightarrow> message = t)
                \<and> (\<forall>t. e = Raises (Raises (Shows t)) \<longrightarrow> message = t)"
    proof (intro allI impI, elim conjE)
      fix e
      assume l: "p_level k = lvl" and i: "ident \<noteq> []"
        and t: "ads j kind ident (p_keywordText k) (p_matchType k) = Throws e"
      from x [unfolded x4] l i t w
      show "status = ''FAILED''
                \<and> (\<forall>t. e = Shows t \<longrightarrow> message = tag @ t)
                \<and> (\<forall>t. e = Raises (Shows t) \<longrightarrow> message = t)
                \<and> (\<forall>t. e = Raises (Raises (Shows t)) \<longrightarrow> message = t)"
        by (rule written_throws)
    qed
    then show "case x of (lvl, tag, kind, ident) \<Rightarrow>
            \<forall>e. p_level k = lvl \<and> ident \<noteq> []
                 \<and> ads j kind ident (p_keywordText k) (p_matchType k) = Throws e
              \<longrightarrow> status = ''FAILED''
                \<and> (\<forall>t. e = Shows t \<longrightarrow> message = tag @ t)
                \<and> (\<forall>t. e = Raises (Shows t) \<longrightarrow> message = t)
                \<and> (\<forall>t. e = Raises (Raises (Shows t)) \<longrightarrow> message = t)"
      unfolding x4 prod.case .
  qed
  have first: "\<exists>status message.
        written ?disp = Some (status, message)
      \<and> (status = ''ACTIVE'' \<or> status = ''FAILED'')
      \<and> ledgerRow (snd (processPendingNegativeKeywords ads clock ss)) (rowIndex k)
          = Some ((sh ! (rowIndex k - 1))
              \<lparr> r_status := status, r_message := message, r_processedDate := clock j \<rparr>)
      \<and> (\<forall>(lvl, tag, kind, ident) \<in> set
             [(''CAMPAIGN'', ''Campaign error: '', CAMPAIGN, p_campaignId k),
              (''AD_GROUP'', ''Ad group error: '', AD_GROUP, p_adGroupId k),
              (''SHARED_LIST'', ''Shared list error: '', SHARED_LIST, p_sharedListId k)].
            \<forall>e. p_level k = lvl \<and> ident \<noteq> []
                 \<and> ads j kind ident (p_keywordText k) (p_matchType k) = Throws e
              \<longrightarrow> status = ''FAILED''
                \<and> (\<forall>t. e = Shows t \<longrightarrow> message = tag @ t)
                \<and> (\<forall>t. e = Raises (Shows t) \<longrightarrow> message = t)
                \<and> (\<forall>t. e = Raises (Raises (Shows t)) \<longrightarrow> message = t))"
    using w st row texts by (intro exI conjI)
  have second: "(\<forall>i < length (getPendingKeywords sh).
          written (addNegativeKeywordToGoogleAds (ads i) (getPendingKeywords sh ! i)) \<noteq> None)
        \<longrightarrow> (\<exists>rs. fst (processPendingNegativeKeywords ads clock ss) = Inr (Some rs))"
  proof
    assume all: "\<forall>i < length (getPendingKeywords sh).
          written (addNegativeKeywordToGoogleAds (ads i) (getPendingKeywords sh ! i)) \<noteq> None"
    have ne: "getPendingKeywords sh \<noteq> []" using assms(2) by auto
    have pre: "\<forall>m < length (getPendingKeywords sh).
        written (addNegativeKeywordToGoogleAds (ads (0 + m)) (getPendingKeywords sh ! m)) \<noteq> None"
      using all by (simp only: add_0)
    have "snd (processLoop ads clock 0 (getPendingKeywords sh)
          \<lparr> rs_sheet = sh, successCount = 0, failureCount = 0, results = [] \<rparr>) = None"
      by (rule processLoop_completes [OF pre])
    then show "\<exists>rs. fst (processPendingNegativeKeywords ads clock ss) = Inr (Some rs)"
      by (rule processPending_result [OF assms(1) ne])
  qed
  from first second show ?thesis by (rule conjI)
qed

text \<open>With an account that throws \<open>null\<close> for the first pending request and knows the
  campaign of the second, row 3 is FAILED with the bare text of the \<open>TypeError\<close>, row 4
  is ACTIVE, and the run returns its results.\<close>

theorem worker_isolates_failures_witness:
  "negativeKeywordsSheet queueSpreadsheet = Some queueSheet
   \<and> length (getPendingKeywords queueSheet) = 2
   \<and> nullThrowingAds 0 CAMPAIGN ''123'' ''free shipping'' ''EXACT''
       = Throws (Raises (Shows ''TypeError: Cannot read properties of null''))
   \<and> written (addNegativeKeywordToGoogleAds (nullThrowingAds 0) (getPendingKeywords queueSheet ! 0))
       = Some (''FAILED'', ''TypeError: Cannot read properties of null'')
   \<and> written (addNegativeKeywordToGoogleAds (nullThrowingAds 1) (getPendingKeywords queueSheet ! 1))
       = Some (''ACTIVE'', ''Added to campaign '' @ dquote @ ''Shoes'' @ dquote)
   \<and> map_option r_status
        (ledgerRow (snd (processPendingNegativeKeywords nullThrowingAds exampleClock queueSpreadsheet)) 3)
      = Some ''FAILED''
   \<and> map_option r_message
        (ledgerRow (snd (processPendingNegativeKeywords nullThrowingAds exampleClock queueSpreadsheet)) 3)
      = Some ''TypeError: Cannot read properties of null''
   \<and> map_option r_status
        (ledgerRow (snd (processPendingNegativeKeywords nullThrowingAds exampleClock queueSpreadsheet)) 4)
      = Some ''ACTIVE''
   \<and> (\<exists>rs. fst (processPendingNegativeKeywords nullThrowingAds exampleClock queueSpreadsheet)
          = Inr (Some rs))"
proof -
  let ?run = "snd (processPendingNegativeKeywords nullThrowingAds exampleClock queueSpreadsheet)"
  let ?ks = "getPendingKeywords queueSheet"
  let ?k0 = "toPending 3 (queueSheet ! 2)"
  let ?k1 = "toPending 4 (queueSheet ! 3)"
  let ?T = "''TypeError: Cannot read properties of null''"
  have sh: "negativeKeywordsSheet queueSpreadsheet = Some queueSheet"
    by (simp add: queueSpreadsheet_def)
  have len: "length ?ks = 2" by (simp add: queue_pending)
  have j0: "0 < length ?ks" and j1: "1 < length ?ks" by (simp_all add: queue_pending)
  have k0: "?k0 = ?ks ! 0" and k1: "?k1 = ?ks ! 1" by (simp_all add: queue_pending)
  have th: "nullThrowingAds 0 CAMPAIGN ''123'' ''free shipping'' ''EXACT'' = Throws (Raises (Shows ?T))"
    by (simp add: nullThrowingAds_def)
  have ok: "nullThrowingAds 1 CAMPAIGN ''456'' ''cheap'' ''EXACT'' = Succeeded ''Shoes''"
    by (simp add: nullThrowingAds_def)
  have d0: "addNegativeKeywordToGoogleAds (nullThrowingAds 0) ?k0 = Inr (Failure ?T)"
    using queue_first_throws [where ads = "nullThrowingAds 0", OF th] by simp
  have d1: "addNegativeKeywordToGoogleAds (nullThrowingAds 1) ?k1
      = Inr (Success (''Added to campaign '' @ dquote @ ''Shoes'' @ dquote))"
    using queue_second_succeeds [where ads = "nullThrowingAds 1", OF ok] .
  have w0: "written (addNegativeKeywordToGoogleAds (nullThrowingAds 0) (?ks ! 0)) = Some (''FAILED'', ?T)"
    unfolding k0 [symmetric] d0 by simp
  have w1: "written (addNegativeKeywordToGoogleAds (nullThrowingAds 1) (?ks ! 1))
       = Some (''ACTIVE'', ''Added to campaign '' @ dquote @ ''Shoes'' @ dquote)"
    unfolding k1 [symmetric] d1 by simp
  have pre0: "\<forall>i \<le> 0. written (addNegativeKeywordToGoogleAds (nullThrowingAds i) (?ks ! i)) \<noteq> None"
    using w0 by simp
  have pre1: "\<forall>i \<le> 1. written (addNegativeKeywordToGoogleAds (nullThrowingAds i) (?ks ! i)) \<noteq> None"
  proof (intro allI impI)
    fix i :: nat
    assume "i \<le> 1"
    then consider "i = 0" | "i = 1" by arith
    then show "written (addNegativeKeywordToGoogleAds (nullThrowingAds i) (?ks ! i)) \<noteq> None"
      using w0 w1 by cases simp_all
  qed
  have all: "\<forall>i < length ?ks. written (addNegativeKeywordToGoogleAds (nullThrowingAds i) (?ks ! i)) \<noteq> None"
    unfolding len using pre1 by (simp add: less_Suc_eq_le numeral_2_eq_2)
  note t0 = worker_isolates_failures [OF sh j0 k0 pre0, of exampleClock]
  note t1 = worker_isolates_failures [OF sh j1 k1 pre1, of exampleClock]
  from t0 obtain status message where
    a0: "written (addNegativeKeywordToGoogleAds (nullThrowingAds 0) ?k0) = Some (status, message)"
    and r0: "ledgerRow ?run (rowIndex ?k0)
          = Some ((queueSheet ! (rowIndex ?k0 - 1))
              \<lparr> r_status := status, r_message := message, r_processedDate := exampleClock 0 \<rparr>)"
    by blast
  from a0 have sm0: "status = ''FAILED''" "message = ?T" unfolding d0 by simp_all
  have ri0: "rowIndex ?k0 = 3" by (simp add: queue_first)
  have a: "map_option r_status (ledgerRow ?run 3) = Some ''FAILED''
      \<and> map_option r_message (ledgerRow ?run 3) = Some ?T"
    using r0 unfolding ri0 sm0 by simp
  from t1 obtain status' message' where
    a1: "written (addNegativeKeywordToGoogleAds (nullThrowingAds 1) ?k1) = Some (status', message')"
    and r1: "ledgerRow ?run (rowIndex ?k1)
          = Some ((queueSheet ! (rowIndex ?k1 - 1))
              \<lparr> r_status := status', r_message := message', r_processedDate := exampleClock 1 \<rparr>)"
    by blast
  from a1 have sm1: "status' = ''ACTIVE''" unfolding d1 by simp
  have ri1: "rowIndex ?k1 = 4" by (simp add: queue_second)
  have b: "map_option r_status (ledgerRow ?run 4) = Some ''ACTIVE''"
    using r1 unfolding ri1 sm1 by simp
  from t0 all have c: "\<exists>rs. fst (processPendingNegativeKeywords nullThrowingAds exampleClock queueSpreadsheet)
          = Inr (Some rs)"
    by blast
  from sh len th w0 w1 a b c show ?thesis by (intro conjI) simp_all
qed

text \<open>An exception whose text the loop's handler cannot take either leaves the
  \<open>forEach\<close>: the outer handler of \<open>processPendingNegativeKeywords\<close> returns \<open>null\<close>,
  and neither the row of that request nor the rows after it are written.\<close>

lemma escaping_exception_ends_run:
  "processPendingNegativeKeywords escapingAds exampleClock queueSpreadsheet
     = (Inr None, queueSpreadsheet)"
proof -
  let ?k0 = "toPending 3 (queueSheet ! 2)"
  let ?T = "''TypeError: Cannot read properties of null''"
  have th: "escapingAds 0 CAMPAIGN ''123'' ''free shipping'' ''EXACT''
      = Throws (Raises (Raises (Raises (Shows ?T))))"
    by (simp add: escapingAds_def)
  have d0: "addNegativeKeywordToGoogleAds (escapingAds 0) ?k0 = Inl (Raises (Shows ?T))"
    using queue_first_throws [where ads = "escapingAds 0", OF th] by simp
  have p0: "processKeyword (escapingAds 0) now ?k0 st = Inl (Shows ?T)" for now st
    by (simp add: processKeyword_def d0)
  have sh: "negativeKeywordsSheet queueSpreadsheet = Some queueSheet"
    by (simp add: queueSpreadsheet_def)
  have same: "queueSpreadsheet \<lparr> negativeKeywordsSheet := Some queueSheet \<rparr> = queueSpreadsheet"
    by (simp add: queueSpreadsheet_def)
  show ?thesis
    by (simp add: processPendingNegativeKeywords_def sh queue_pending p0 same)
qed

end
